theory Spec2Isabelle
  imports Main "HOL-Library.Multiset"
begin

unbundle bit_operations_syntax

section \<open>JavaScript strings\<close>

text \<open>
  A JavaScript string is modelled as a \<^typ>\<open>string\<close>: one \<^typ>\<open>char\<close> per code unit,
  which covers the code units below 256.  Offsets into chunk code are list positions.
\<close>

definition startsWith :: "string \<Rightarrow> string \<Rightarrow> bool" where
  "startsWith s p \<longleftrightarrow> take (length p) s = p"

definition endsWith :: "string \<Rightarrow> string \<Rightarrow> bool" where
  "endsWith s p \<longleftrightarrow> length p \<le> length s \<and> drop (length s - length p) s = p"

definition str_includes :: "string \<Rightarrow> char \<Rightarrow> bool" where
  "str_includes s c \<longleftrightarrow> c \<in> set s"

text \<open>\<open>s.split(c)\<close> for a one-character separator; the result is never empty.\<close>

fun str_split :: "string \<Rightarrow> char \<Rightarrow> string list" where
  "str_split [] c = [[]]"
| "str_split (x # xs) c =
     (if x = c then [] # str_split xs c
      else (case str_split xs c of [] \<Rightarrow> [[x]] | h # t \<Rightarrow> (x # h) # t))"

text \<open>\<open>parts.join(c)\<close>.\<close>

fun str_join :: "string list \<Rightarrow> char \<Rightarrow> string" where
  "str_join [] c = []"
| "str_join [p] c = p"
| "str_join (p # q # ps) c = p @ c # str_join (q # ps) c"

text \<open>\<open>s.split('/').pop()\<close>: the text after the last slash.\<close>

definition lastSegment :: "string \<Rightarrow> string" where
  "lastSegment s = last (str_split s CHR ''/'')"

section \<open>computeHash\<close>

text \<open>
  \<open>computeHash\<close> feeds the UTF-8 bytes of its input to SHA-256, encodes the 32 digest
  bytes as unpadded base64url and keeps the first eight characters.  SHA-256 follows
  FIPS 180-4 on integers, every 32-bit addition reduced modulo \<open>2^32\<close> explicitly.
\<close>

definition utf8 :: "string \<Rightarrow> int list" where
  "utf8 s = concat (map (\<lambda>c. let n = of_char c :: int in
       if n < 128 then [n] else [192 + n div 64, 128 + n mod 64]) s)"

definition sha256_K :: "int list" where
  "sha256_K =
    [1116352408, 1899447441, 3049323471, 3921009573, 961987163, 1508970993,
     2453635748, 2870763221, 3624381080, 310598401, 607225278, 1426881987,
     1925078388, 2162078206, 2614888103, 3248222580, 3835390401, 4022224774,
     264347078, 604807628, 770255983, 1249150122, 1555081692, 1996064986,
     2554220882, 2821834349, 2952996808, 3210313671, 3336571891, 3584528711,
     113926993, 338241895, 666307205, 773529912, 1294757372, 1396182291,
     1695183700, 1986661051, 2177026350, 2456956037, 2730485921, 2820302411,
     3259730800, 3345764771, 3516065817, 3600352804, 4094571909, 275423344,
     430227734, 506948616, 659060556, 883997877, 958139571, 1322822218,
     1537002063, 1747873779, 1955562222, 2024104815, 2227730452, 2361852424,
     2428436474, 2756734187, 3204031479, 3329325298]"

definition w32 :: "int \<Rightarrow> int" where
  "w32 x = x mod 4294967296"

text \<open>Rotation to the right by \<open>log2 p\<close> bits of a 32-bit value.\<close>

definition rotr :: "int \<Rightarrow> int \<Rightarrow> int" where
  "rotr p x = x div p + (x mod p) * (4294967296 div p)"

definition ssig0 :: "int \<Rightarrow> int" where
  "ssig0 x = rotr 128 x XOR rotr 262144 x XOR x div 8"

definition ssig1 :: "int \<Rightarrow> int" where
  "ssig1 x = rotr 131072 x XOR rotr 524288 x XOR x div 1024"

definition bsig0 :: "int \<Rightarrow> int" where
  "bsig0 x = rotr 4 x XOR rotr 8192 x XOR rotr 4194304 x"

definition bsig1 :: "int \<Rightarrow> int" where
  "bsig1 x = rotr 64 x XOR rotr 2048 x XOR rotr 33554432 x"

definition ch :: "int \<Rightarrow> int \<Rightarrow> int \<Rightarrow> int" where
  "ch x y z = (x AND y) XOR ((4294967295 - x) AND z)"

definition maj :: "int \<Rightarrow> int \<Rightarrow> int \<Rightarrow> int" where
  "maj x y z = (x AND y) XOR (x AND z) XOR (y AND z)"

text \<open>The message schedule, kept newest word first.\<close>

fun extend :: "nat \<Rightarrow> int list \<Rightarrow> int list" where
  "extend 0 ws = ws"
| "extend (Suc n) ws =
     extend n (w32 (ssig1 (ws ! 1) + ws ! 6 + ssig0 (ws ! 14) + ws ! 15) # ws)"

type_synonym sha_state = "int \<times> int \<times> int \<times> int \<times> int \<times> int \<times> int \<times> int"

fun round_step :: "int \<times> int \<Rightarrow> sha_state \<Rightarrow> sha_state" where
  "round_step (k, w) (a, b, c, d, e, f, g, h) =
     (let t1 = h + bsig1 e + ch e f g + k + w;
          t2 = bsig0 a + maj a b c
      in (w32 (t1 + t2), a, b, c, w32 (d + t1), e, f, g))"

fun add_state :: "sha_state \<Rightarrow> sha_state \<Rightarrow> sha_state" where
  "add_state (a, b, c, d, e, f, g, h) (a', b', c', d', e', f', g', h') =
     (w32 (a + a'), w32 (b + b'), w32 (c + c'), w32 (d + d'),
      w32 (e + e'), w32 (f + f'), w32 (g + g'), w32 (h + h'))"

fun be32 :: "int list \<Rightarrow> int list" where
  "be32 (a # b # c # d # r) = (((a * 256 + b) * 256 + c) * 256 + d) # be32 r"
| "be32 _ = []"

definition compress :: "sha_state \<Rightarrow> int list \<Rightarrow> sha_state" where
  "compress hs blk =
     add_state hs (fold round_step (zip sha256_K (rev (extend 48 (rev (be32 blk))))) hs)"

definition pad :: "int list \<Rightarrow> int list" where
  "pad m = (let l = int (length m); z = (119 - l mod 64) mod 64 in
     m @ [128] @ replicate (nat z) 0 @ map (\<lambda>p. (l * 8) div p mod 256)
       [72057594037927936, 281474976710656, 1099511627776, 4294967296, 16777216, 65536, 256, 1])"

fun blocks :: "nat \<Rightarrow> sha_state \<Rightarrow> int list \<Rightarrow> sha_state" where
  "blocks 0 hs m = hs"
| "blocks (Suc n) hs m = blocks n (compress hs (take 64 m)) (drop 64 m)"

definition word_bytes :: "int \<Rightarrow> int list" where
  "word_bytes w = map (\<lambda>p. w div p mod 256) [16777216, 65536, 256, 1]"

fun state_bytes :: "sha_state \<Rightarrow> int list" where
  "state_bytes (a, b, c, d, e, f, g, h) =
     concat (map word_bytes [a, b, c, d, e, f, g, h])"

definition sha256 :: "int list \<Rightarrow> int list" where
  "sha256 m = (let p = pad m in state_bytes (blocks (length p div 64)
     (1779033703, 3144134277, 1013904242, 2773480762,
      1359893119, 2600822924, 528734635, 1541459225) p))"

definition base64url_alphabet :: string where
  "base64url_alphabet =
     ''ABCDEFGHIJKLMNOPQRSTUVWXYZabcdefghijklmnopqrstuvwxyz0123456789-_''"

definition b64 :: "int \<Rightarrow> char" where
  "b64 n = base64url_alphabet ! nat n"

fun base64url :: "int list \<Rightarrow> string" where
  "base64url (a # b # c # r) =
     b64 (a div 4) # b64 ((a mod 4) * 16 + b div 16) # b64 ((b mod 16) * 4 + c div 64)
       # b64 (c mod 64) # base64url r"
| "base64url [a, b] = [b64 (a div 4), b64 ((a mod 4) * 16 + b div 16), b64 ((b mod 16) * 4)]"
| "base64url [a] = [b64 (a div 4), b64 ((a mod 4) * 16)]"
| "base64url [] = []"

definition computeHash :: "string \<Rightarrow> string" where
  "computeHash input = take 8 (base64url (sha256 (utf8 input)))"

section \<open>Objects and maps of the host language\<close>

text \<open>
  An object with string keys is the list of its entries in enumeration order, which is
  the order \<open>Object.entries\<close> and \<open>JSON.stringify\<close> follow: keys that are array
  indices come first, ascending by value, and all other keys follow in insertion order.
\<close>

definition isDigit :: "char \<Rightarrow> bool" where
  "isDigit c \<longleftrightarrow> (48::int) \<le> of_char c \<and> of_char c \<le> (57::int)"

definition digitsValue :: "string \<Rightarrow> int" where
  "digitsValue k = foldl (\<lambda>n c. 10 * n + (of_char c - 48)) 0 k"

text \<open>The canonical decimal form of an integer below \<open>2^32 - 1\<close>.\<close>

definition arrayIndex :: "string \<Rightarrow> int option" where
  "arrayIndex k =
     (if k \<noteq> [] \<and> list_all isDigit k \<and> (k = ''0'' \<or> hd k \<noteq> CHR ''0'')
         \<and> digitsValue k < 4294967295
      then Some (digitsValue k) else None)"

fun insertIndexed :: "int \<Rightarrow> string \<Rightarrow> 'v \<Rightarrow> (string \<times> 'v) list \<Rightarrow> (string \<times> 'v) list" where
  "insertIndexed i k v [] = [(k, v)]"
| "insertIndexed i k v ((k', v') # es) =
     (case arrayIndex k' of
        Some j \<Rightarrow> if j < i then (k', v') # insertIndexed i k v es else (k, v) # (k', v') # es
      | None \<Rightarrow> (k, v) # (k', v') # es)"

text \<open>
  \<open>obj[k] = v\<close> on a plain object.  The key \<open>__proto__\<close> is never stored: the
  assignment reaches the accessor of \<open>Object.prototype\<close>, which ignores a value that is
  not an object (and changes the prototype for one that is), so the object gets no entry
  of its own.
\<close>

definition objSet :: "(string \<times> 'v) list \<Rightarrow> string \<Rightarrow> 'v \<Rightarrow> (string \<times> 'v) list" where
  "objSet obj k v =
     (if k = ''__proto__'' then obj
      else if k \<in> set (map fst obj) then map (\<lambda>e. if fst e = k then (k, v) else e) obj
      else (case arrayIndex k of Some i \<Rightarrow> insertIndexed i k v obj | None \<Rightarrow> obj @ [(k, v)]))"

text \<open>\<open>delete obj[k]\<close>.\<close>

definition objDelete :: "(string \<times> 'v) list \<Rightarrow> string \<Rightarrow> (string \<times> 'v) list" where
  "objDelete obj k = filter (\<lambda>e. fst e \<noteq> k) obj"

text \<open>
  \<open>Array.prototype.sort\<close> with a comparison function: a stable sort, an element staying
  in front of a later one unless the comparison is positive.
\<close>

fun insertBy :: "('a \<Rightarrow> 'a \<Rightarrow> int) \<Rightarrow> 'a \<Rightarrow> 'a list \<Rightarrow> 'a list" where
  "insertBy cmp x [] = [x]"
| "insertBy cmp x (y # ys) = (if cmp x y \<le> 0 then x # y # ys else y # insertBy cmp x ys)"

definition sortBy :: "('a \<Rightarrow> 'a \<Rightarrow> int) \<Rightarrow> 'a list \<Rightarrow> 'a list" where
  "sortBy cmp xs = foldr (insertBy cmp) xs []"

section \<open>Data model\<close>

datatype output_type = Chunk | Asset

datatype mappings = BundlerMappings string | SpliceMappings "(nat \<times> nat \<times> string) list"

text \<open>
  The source map of a chunk.  The position mappings are opaque to the plugin: either
  the string the bundler attached, or what \<open>MagicString.generateMap\<close> derives from the
  splices \<open>(start, end, replacement)\<close> applied to the code.
\<close>

record source_map =
  map_file :: string
  sources :: "string list"
  sourcesContent :: "string list option"
  mappings :: mappings

text \<open>
  One entry of the bundle.  \<open>modules\<close> holds the keys of the module table in
  enumeration order; \<open>map'\<close> is the field \<open>map\<close>.
\<close>

record output_chunk =
  otype :: output_type
  fileName :: string
  name :: string
  code :: string
  facadeModuleId :: "string option"
  moduleIds :: "string list option"
  modules :: "string list option"
  map' :: "source_map option"

type_synonym output_bundle = "(string \<times> output_chunk) list"

record rewrite_op =
  op_start :: nat
  op_end :: nat
  replacement :: string

text \<open>
  What the walk over the syntax tree of a chunk visits: the nodes of the four kinds
  with a handler, each with its \<open>source\<close> child, if any.  A literal source carries its
  value; \<open>src_start\<close> and \<open>src_end\<close> delimit the literal, quotes included.
\<close>

datatype node_type = ImportDeclaration | ExportNamedDeclaration | ExportAllDeclaration | ImportExpression

datatype literal_value = StringValue string | OtherValue

datatype source_expr = Literal literal_value | OtherExpression

record source_node =
  expr :: source_expr
  src_start :: nat
  src_end :: nat

record ast_node =
  ntype :: node_type
  source :: "source_node option"

text \<open>
  \<open>Parser.parse\<close> followed by the walk is a parameter: it maps the code either to the
  text of the syntax error or to the visited nodes.
\<close>

type_synonym parser = "string \<Rightarrow> string + ast_node list"

record options =
  opt_assetsDir :: "string option"
  opt_useAbsolutePaths :: "bool option"

text \<open>The variables of the closure \<open>importMapPlugin\<close> returns its hooks in.\<close>

record plugin =
  optionsAssetsDir :: "string option"
  useAbsolutePaths :: bool
  resolvedAssetsDir :: string
  chunkMapping :: "string \<rightharpoonup> string"
  baseNameCounts :: "string \<rightharpoonup> nat"
  importMap :: "(string \<times> string) list"

section \<open>importMapPlugin and configResolved\<close>

definition importMapPlugin :: "options option \<Rightarrow> plugin" where
  "importMapPlugin opts =
     (let assetsDir = (case opts of None \<Rightarrow> ''assets''
                       | Some opt \<Rightarrow> (case opt_assetsDir opt of None \<Rightarrow> ''assets'' | Some d \<Rightarrow> d))
      in \<lparr> optionsAssetsDir = (case opts of None \<Rightarrow> None | Some opt \<Rightarrow> opt_assetsDir opt),
           useAbsolutePaths = (case opts of None \<Rightarrow> True
                       | Some opt \<Rightarrow> (case opt_useAbsolutePaths opt of None \<Rightarrow> True | Some b \<Rightarrow> b)),
           resolvedAssetsDir = assetsDir,
           chunkMapping = Map.empty,
           baseNameCounts = Map.empty,
           importMap = [] \<rparr>)"

text \<open>\<open>configResolved\<close>, given \<open>config.build?.assetsDir\<close>.\<close>

definition configResolved :: "string option \<Rightarrow> plugin \<Rightarrow> plugin" where
  "configResolved buildAssetsDir p =
     (case optionsAssetsDir p of
        Some (c # cs) \<Rightarrow> p
      | _ \<Rightarrow> (case buildAssetsDir of Some (d # ds) \<Rightarrow> p\<lparr>resolvedAssetsDir := d # ds\<rparr> | _ \<Rightarrow> p))"

section \<open>generateBundle: counting base names and assigning specifiers\<close>

definition getCount :: "(string \<rightharpoonup> nat) \<Rightarrow> string \<Rightarrow> nat" where
  "getCount counts k = (case counts k of None \<Rightarrow> 0 | Some n \<Rightarrow> n)"

definition isScript :: "string \<Rightarrow> output_chunk \<Rightarrow> bool" where
  "isScript fname chunk \<longleftrightarrow> otype chunk = Chunk \<and> endsWith fname ''.js''"

fun countBaseNames :: "output_bundle \<Rightarrow> (string \<rightharpoonup> nat) \<Rightarrow> (string \<rightharpoonup> nat)" where
  "countBaseNames [] counts = counts"
| "countBaseNames ((fname, chunk) # es) counts =
     (if isScript fname chunk
      then countBaseNames es (counts(name chunk \<mapsto> getCount counts (name chunk) + 1))
      else countBaseNames es counts)"

definition sourcePathOf :: "output_chunk \<Rightarrow> string" where
  "sourcePathOf chunk =
     (case facadeModuleId chunk of
        Some (c # cs) \<Rightarrow> c # cs
      | _ \<Rightarrow> (case moduleIds chunk of
                Some (m # ms) \<Rightarrow> m
              | _ \<Rightarrow> (case modules chunk of Some (k # ks) \<Rightarrow> k | _ \<Rightarrow> [])))"

definition hashInputOf :: "output_chunk \<Rightarrow> string" where
  "hashInputOf chunk =
     (let sourcePath = sourcePathOf chunk; baseName = name chunk
      in if sourcePath \<noteq> [] then sourcePath @ '':'' @ baseName else baseName)"

definition moduleSpecOf :: "(string \<rightharpoonup> nat) \<Rightarrow> output_chunk \<Rightarrow> string" where
  "moduleSpecOf counts chunk =
     (let baseName = name chunk; count = getCount counts baseName
      in if count > 1 then baseName @ ''-'' @ computeHash (hashInputOf chunk) else baseName)"

definition filenameOnlyOf :: "string \<Rightarrow> string" where
  "filenameOnlyOf fname =
     (if str_includes fname CHR ''/'' then lastSegment fname else fname)"

definition servedPath :: "plugin \<Rightarrow> string \<Rightarrow> string" where
  "servedPath p filenameOnly =
     (let pathPrefix = (if useAbsolutePaths p then ''/'' else ''./'')
      in pathPrefix @ resolvedAssetsDir p @ ''/'' @ filenameOnly)"

fun secondPass :: "output_bundle \<Rightarrow> plugin \<Rightarrow> plugin" where
  "secondPass [] p = p"
| "secondPass ((fname, chunk) # es) p =
     (if isScript fname chunk
      then (let baseName = name chunk;
                moduleSpec = moduleSpecOf (baseNameCounts p) chunk;
                filenameOnly = filenameOnlyOf fname
            in secondPass es (p\<lparr>
                 chunkMapping := (chunkMapping p)
                   (fname \<mapsto> moduleSpec, filenameOnly \<mapsto> moduleSpec, baseName \<mapsto> moduleSpec),
                 importMap := objSet (importMap p) moduleSpec (servedPath p filenameOnly)\<rparr>))
      else secondPass es p)"

section \<open>generateBundle: rewriting the references of a chunk\<close>

text \<open>
  \<open>handleImportSource\<close> returns the transform it pushes, if any.  The warning it logs
  for an unresolved file name is not part of the model.
\<close>

definition handleImportSource :: "plugin \<Rightarrow> ast_node \<Rightarrow> rewrite_op option" where
  "handleImportSource p node =
     (case source node of
        None \<Rightarrow> None
      | Some src \<Rightarrow>
          (case expr src of
             Literal (StringValue specifier) \<Rightarrow>
               if specifier = [] then None
               else
                 let isRelative = startsWith specifier ''./'';
                     isAbsolute = startsWith specifier (''/'' @ resolvedAssetsDir p @ ''/'');
                     isAbsoluteWithDot = startsWith specifier (''./'' @ resolvedAssetsDir p @ ''/'')
                 in if \<not> isRelative \<and> \<not> isAbsolute \<and> \<not> isAbsoluteWithDot then None
                    else
                      (case chunkMapping p (lastSegment specifier) of
                         None \<Rightarrow> None
                       | Some moduleSpec \<Rightarrow>
                           if moduleSpec = [] then None
                           else Some \<lparr> op_start = src_start src + 1,
                                       op_end = src_end src - 1,
                                       replacement = moduleSpec \<rparr>)
           | _ \<Rightarrow> None))"

text \<open>The handlers given to the walk, by node type.\<close>

definition visit :: "plugin \<Rightarrow> ast_node \<Rightarrow> rewrite_op option" where
  "visit p node =
     (if ntype node = ImportExpression
      then (case source node of
              None \<Rightarrow> None
            | Some src \<Rightarrow> (case expr src of Literal v \<Rightarrow> handleImportSource p node
                                            | OtherExpression \<Rightarrow> None))
      else handleImportSource p node)"

fun collect :: "plugin \<Rightarrow> ast_node list \<Rightarrow> rewrite_op list" where
  "collect p [] = []"
| "collect p (node # nodes) =
     (case visit p node of None \<Rightarrow> collect p nodes | Some t \<Rightarrow> t # collect p nodes)"

text \<open>
  \<open>magicString.overwrite\<close> for each transform, in the order given.  The offsets refer
  to the original code; with the transforms in descending order of start a range that
  is not empty and ends at or before the start of the previous one is replaced in
  place.  On any other range (empty, beyond the end of the code, or reaching into text
  already replaced) the library raises, which the model records as an error text.
\<close>

fun applyTransforms :: "rewrite_op list \<Rightarrow> nat \<Rightarrow> string \<Rightarrow> string + string" where
  "applyTransforms [] limit s = Inr s"
| "applyTransforms (t # ts) limit s =
     (if op_start t < op_end t \<and> op_end t \<le> limit
      then applyTransforms ts (op_start t)
             (take (op_start t) s @ replacement t @ drop (op_end t) s)
      else Inl ''Error: Cannot overwrite this range'')"

definition byStartDescending :: "rewrite_op \<Rightarrow> rewrite_op \<Rightarrow> int" where
  "byStartDescending a b = int (op_start b) - int (op_start a)"

text \<open>
  The \<open>try\<close> block of the third pass: the transformed code and the transforms applied,
  or the error that is thrown.
\<close>

definition rewriteCode :: "parser \<Rightarrow> plugin \<Rightarrow> string \<Rightarrow> string + (string \<times> rewrite_op list)" where
  "rewriteCode parse p c =
     (case parse c of
        Inl error \<Rightarrow> Inl (''Error parsing code: '' @ error)
      | Inr nodes \<Rightarrow>
          (let importsToTransform = sortBy byStartDescending (collect p nodes)
           in case applyTransforms importsToTransform (length c) c of
                Inl error \<Rightarrow> Inl (''Error parsing code: '' @ error)
              | Inr transformedCode \<Rightarrow> Inr (transformedCode, importsToTransform)))"

section \<open>generateBundle: the new hash and file name of a rewritten chunk\<close>

definition sourceMappingURL :: string where
  "sourceMappingURL = ''//# sourceMappingURL=''"

definition isLineTerminator :: "char \<Rightarrow> bool" where
  "isLineTerminator c \<longleftrightarrow> c = CHR 0x0A \<or> c = CHR 0x0D"

definition isSpace :: "char \<Rightarrow> bool" where
  "isSpace c \<longleftrightarrow> (of_char c :: int) \<in> set [9, 10, 11, 12, 13, 32, 160]"

text \<open>\<open>code.replace(/\/\/# sourceMappingURL=.*$/gm, '')\<close>.\<close>

function stripSourceMaps :: "string \<Rightarrow> string" where
  "stripSourceMaps [] = []"
| "stripSourceMaps (c # cs) =
     (if startsWith (c # cs) sourceMappingURL
      then stripSourceMaps (dropWhile (\<lambda>x. \<not> isLineTerminator x) cs)
      else c # stripSourceMaps cs)"
  by pat_completeness auto
termination
  by (relation "measure length") (auto intro: le_imp_less_Suc length_dropWhile_le)

text \<open>
  The replacement text of \<open>String.prototype.replace\<close> for a match with unnamed groups:
  \<open>m\<close> is the matched text, \<open>pre\<close> and \<open>suf\<close> the text before and after it, \<open>caps\<close>
  the groups.
\<close>

definition digitOf :: "char \<Rightarrow> nat" where
  "digitOf c = nat (of_char c - 48)"

fun getSubstitution :: "string \<Rightarrow> string \<Rightarrow> string \<Rightarrow> string list \<Rightarrow> string \<Rightarrow> string" where
  "getSubstitution m pre suf caps [] = []"
| "getSubstitution m pre suf caps [c] = [c]"
| "getSubstitution m pre suf caps (c # d # r) =
     (if c \<noteq> CHR ''$'' then c # getSubstitution m pre suf caps (d # r)
      else if d = CHR ''$'' then CHR ''$'' # getSubstitution m pre suf caps r
      else if d = CHR ''&'' then m @ getSubstitution m pre suf caps r
      else if d = CHR 0x60 then pre @ getSubstitution m pre suf caps r
      else if d = CHR 0x27 then suf @ getSubstitution m pre suf caps r
      else if isDigit d then
        (case r of
           e # r' \<Rightarrow>
             if isDigit e \<and> 1 \<le> 10 * digitOf d + digitOf e
                  \<and> 10 * digitOf d + digitOf e \<le> length caps
             then caps ! (10 * digitOf d + digitOf e - 1) @ getSubstitution m pre suf caps r'
             else if 1 \<le> digitOf d \<and> digitOf d \<le> length caps
             then caps ! (digitOf d - 1) @ getSubstitution m pre suf caps (e # r')
             else c # d # getSubstitution m pre suf caps (e # r')
         | [] \<Rightarrow>
             if 1 \<le> digitOf d \<and> digitOf d \<le> length caps then caps ! (digitOf d - 1)
             else [c, d])
      else c # getSubstitution m pre suf caps (d # r))"

text \<open>
  The first match of \<open>/(\/\/# sourceMappingURL=)([^\s]+)(\.map)/\<close> at the head of a
  text: the second group and the text after the match.
\<close>

fun findMapSuffix :: "nat \<Rightarrow> string \<Rightarrow> nat option" where
  "findMapSuffix 0 run = None"
| "findMapSuffix (Suc n) run =
     (if take 4 (drop (Suc n) run) = ''.map'' then Some (Suc n) else findMapSuffix n run)"

definition matchComment :: "string \<Rightarrow> (string \<times> string) option" where
  "matchComment s =
     (if startsWith s sourceMappingURL
      then (let run = takeWhile (\<lambda>c. \<not> isSpace c) (drop (length sourceMappingURL) s)
            in case findMapSuffix (length run - 4) run of
                 None \<Rightarrow> None
               | Some n \<Rightarrow> Some (take n run, drop (length sourceMappingURL + n + 4) s))
      else None)"

text \<open>\<open>code.replace(/(\/\/# sourceMappingURL=)([^\s]+)(\.map)/, template)\<close>.\<close>

fun replaceComment :: "string \<Rightarrow> string \<Rightarrow> string \<Rightarrow> string" where
  "replaceComment pre [] template = pre"
| "replaceComment pre (c # cs) template =
     (case matchComment (c # cs) of
        Some (g, suf) \<Rightarrow>
          pre @ getSubstitution (sourceMappingURL @ g @ ''.map'') pre suf
                  [sourceMappingURL, g, ''.map''] template @ suf
      | None \<Rightarrow> replaceComment (pre @ [c]) cs template)"

text \<open>
  The map written back to a rewritten chunk: the positions are those of the splices,
  \<open>sources\<close> and \<open>sourcesContent\<close> those of the existing map; \<open>generateMap\<close> fills in
  the original code where the existing map has no \<open>sourcesContent\<close>.
\<close>

definition mergeMap :: "source_map \<Rightarrow> string \<Rightarrow> string \<Rightarrow> rewrite_op list \<Rightarrow> source_map" where
  "mergeMap existingMap newFileName original ts =
     \<lparr> map_file = newFileName,
       sources = sources existingMap,
       sourcesContent = (case sourcesContent existingMap of
                           Some sc \<Rightarrow> Some sc | None \<Rightarrow> Some [original]),
       mappings = SpliceMappings (map (\<lambda>t. (op_start t, op_end t, replacement t)) ts) \<rparr>"

definition newFileNameOf :: "string \<Rightarrow> output_chunk \<Rightarrow> string \<Rightarrow> string" where
  "newFileNameOf fname chunk transformedCode =
     (let codeWithoutSourceMaps = stripSourceMaps transformedCode;
          newHash = computeHash codeWithoutSourceMaps;
          filenameOnly = filenameOnlyOf fname;
          baseName = name chunk
      in if baseName \<noteq> [] then baseName @ ''-'' @ newHash @ ''.js'' else filenameOnly)"

definition newFilePathOf :: "string \<Rightarrow> string \<Rightarrow> string" where
  "newFilePathOf fname newFileName =
     (if str_includes fname CHR ''/''
      then str_join (butlast (str_split fname CHR ''/'')) CHR ''/'' @ ''/'' @ newFileName
      else newFileName)"

text \<open>
  The body of the third pass for one entry of the bundle: the chunk as it is left, and
  the new path staged in \<open>fileRenames\<close>, if any.
\<close>

definition transformChunk ::
  "parser \<Rightarrow> plugin \<Rightarrow> string \<Rightarrow> output_chunk \<Rightarrow> string + (output_chunk \<times> string option)" where
  "transformChunk parse p fname chunk =
     (if otype chunk \<noteq> Chunk \<or> code chunk = [] \<or> \<not> endsWith fname ''.js''
      then Inr (chunk, None)
      else
        (case rewriteCode parse p (code chunk) of
           Inl error \<Rightarrow> Inl error
         | Inr (transformedCode, ts) \<Rightarrow>
             if ts = [] then Inr (chunk, None)
             else
               (let newFileName = newFileNameOf fname chunk transformedCode;
                    newFilePath = newFilePathOf fname newFileName
                in case map' chunk of
                     None \<Rightarrow> Inr (chunk\<lparr>code := transformedCode\<rparr>, Some newFilePath)
                   | Some existingMap \<Rightarrow>
                       Inr (chunk\<lparr>
                              code := replaceComment [] transformedCode
                                        (''$1'' @ newFileName @ ''.map''),
                              map' := Some (mergeMap existingMap newFileName (code chunk) ts)\<rparr>,
                            Some newFilePath))))"

fun thirdPass ::
  "parser \<Rightarrow> plugin \<Rightarrow> output_bundle \<Rightarrow> string + (output_bundle \<times> (string \<times> string) list)" where
  "thirdPass parse p [] = Inr ([], [])"
| "thirdPass parse p ((fname, chunk) # es) =
     (case transformChunk parse p fname chunk of
        Inl error \<Rightarrow> Inl error
      | Inr (chunk', staged) \<Rightarrow>
          (case thirdPass parse p es of
             Inl error \<Rightarrow> Inl error
           | Inr (es', fileRenames) \<Rightarrow>
               Inr ((fname, chunk') # es',
                    (case staged of None \<Rightarrow> fileRenames
                                  | Some newFilePath \<Rightarrow> (fname, newFilePath) # fileRenames))))"

section \<open>generateBundle: renaming\<close>

text \<open>The body of the fourth pass for one staged rename.\<close>

fun commitRename :: "string \<times> string \<Rightarrow> plugin \<times> output_bundle \<Rightarrow> plugin \<times> output_bundle" where
  "commitRename (oldFileName, newFileName) (p, bundle) =
     (case map_of bundle oldFileName of
        None \<Rightarrow> (p, bundle)
      | Some chunk \<Rightarrow>
          if otype chunk \<noteq> Chunk then (p, bundle)
          else
            (let bundle' = objSet (objDelete bundle oldFileName) newFileName
                             (chunk\<lparr>fileName := newFileName\<rparr>);
                 filenameOnly = filenameOnlyOf oldFileName
             in case chunkMapping p filenameOnly of
                  None \<Rightarrow> (p, bundle')
                | Some moduleSpec \<Rightarrow>
                    if moduleSpec = [] then (p, bundle')
                    else
                      (let newFilenameOnly = filenameOnlyOf newFileName
                       in (p\<lparr>importMap := objSet (importMap p) moduleSpec
                                             (servedPath p newFilenameOnly),
                              chunkMapping := (chunkMapping p)
                                (newFileName \<mapsto> moduleSpec, newFilenameOnly \<mapsto> moduleSpec,
                                 filenameOnly \<mapsto> moduleSpec)\<rparr>,
                           bundle'))))"

fun fourthPass :: "(string \<times> string) list \<Rightarrow> plugin \<times> output_bundle \<Rightarrow> plugin \<times> output_bundle" where
  "fourthPass [] st = st"
| "fourthPass (r # rs) st = fourthPass rs (commitRename r st)"

section \<open>The hooks\<close>

text \<open>
  \<open>generateBundle\<close>: the error thrown, or the closure variables and the bundle as the
  hook leaves them.
\<close>

definition generateBundle :: "parser \<Rightarrow> plugin \<Rightarrow> output_bundle \<Rightarrow> string + (plugin \<times> output_bundle)" where
  "generateBundle parse p bundle =
     (let bundleEntries = bundle;
          p1 = p\<lparr>baseNameCounts := countBaseNames bundleEntries (baseNameCounts p)\<rparr>;
          p2 = secondPass bundleEntries p1
      in case thirdPass parse p2 bundleEntries of
           Inl error \<Rightarrow> Inl error
         | Inr (bundle3, fileRenames) \<Rightarrow> Inr (fourthPass fileRenames (p2, bundle3)))"

text \<open>
  \<open>transformIndexHtml\<close>, with \<open>String.prototype.localeCompare\<close> as a parameter: the
  closure variables as the hook leaves them.  The tag it returns serialises
  \<open>importMap\<close>, its keys in enumeration order.
\<close>

definition transformIndexHtml :: "(string \<Rightarrow> string \<Rightarrow> int) \<Rightarrow> plugin \<Rightarrow> plugin" where
  "transformIndexHtml localeCompare p =
     (let entries = sortBy (\<lambda>a b. localeCompare (fst a) (fst b)) (importMap p);
          sortedImports = foldl (\<lambda>obj e. objSet obj (fst e) (snd e)) [] entries
      in p\<lparr>importMap := sortedImports\<rparr>)"

definition emittedKeys :: "(string \<Rightarrow> string \<Rightarrow> int) \<Rightarrow> plugin \<Rightarrow> string list" where
  "emittedKeys localeCompare p = map fst (importMap (transformIndexHtml localeCompare p))"

text \<open>
  The host runs \<open>generateBundle\<close> and, unless it threw, \<open>transformIndexHtml\<close>; the
  resolution table is the \<open>importMap\<close> it serialises then.
\<close>

definition build ::
  "parser \<Rightarrow> (string \<Rightarrow> string \<Rightarrow> int) \<Rightarrow> plugin \<Rightarrow> output_bundle
     \<Rightarrow> string + (output_bundle \<times> (string \<times> string) list)" where
  "build parse localeCompare p bundle =
     (case generateBundle parse p bundle of
        Inl error \<Rightarrow> Inl error
      | Inr (p', bundle') \<Rightarrow> Inr (bundle', importMap (transformIndexHtml localeCompare p')))"

text \<open>
  The closure variables after a call of \<open>generateBundle\<close>.  When the hook throws, they
  stay as the second pass left them.
\<close>

definition pluginAfter :: "parser \<Rightarrow> plugin \<Rightarrow> output_bundle \<Rightarrow> plugin" where
  "pluginAfter parse p b =
     (case generateBundle parse p b of
        Inr (p', b') \<Rightarrow> p'
      | Inl error \<Rightarrow> secondPass b (p\<lparr>baseNameCounts := countBaseNames b (baseNameCounts p)\<rparr>))"

text \<open>The bundle after a call of \<open>generateBundle\<close> that returns.\<close>

definition bundleAfter :: "parser \<Rightarrow> plugin \<Rightarrow> output_bundle \<Rightarrow> output_bundle option" where
  "bundleAfter parse p b =
     (case generateBundle parse p b of Inr (p', b') \<Rightarrow> Some b' | Inl error \<Rightarrow> None)"

text \<open>The renames staged by the third pass of \<open>generateBundle\<close>, when it does not throw.\<close>

definition stagedRenames :: "parser \<Rightarrow> plugin \<Rightarrow> output_bundle \<Rightarrow> (string \<times> string) list option" where
  "stagedRenames parse p b =
     (case thirdPass parse (secondPass b (p\<lparr>baseNameCounts := countBaseNames b (baseNameCounts p)\<rparr>)) b of
        Inr (bundle3, fileRenames) \<Rightarrow> Some fileRenames
      | Inl error \<Rightarrow> None)"

text \<open>The error a hook throws, if it throws.\<close>

definition thrown :: "string + 'a \<Rightarrow> string option" where
  "thrown r = (case r of Inl error \<Rightarrow> Some error | Inr x \<Rightarrow> None)"

text \<open>The comparison of two strings code unit by code unit.\<close>

fun codeUnitCompare :: "string \<Rightarrow> string \<Rightarrow> int" where
  "codeUnitCompare [] [] = 0"
| "codeUnitCompare [] (y # ys) = - 1"
| "codeUnitCompare (x # xs) [] = 1"
| "codeUnitCompare (x # xs) (y # ys) =
     (if (of_char x :: int) < of_char y then - 1
      else if (of_char y :: int) < of_char x then 1
      else codeUnitCompare xs ys)"

section \<open>Vocabulary of the properties\<close>

text \<open>
  A specifier is a candidate when it is relative or lies under the assets directory, in
  the absolute or the dotted form.
\<close>

definition isCandidate :: "plugin \<Rightarrow> string \<Rightarrow> bool" where
  "isCandidate p specifier \<longleftrightarrow>
     startsWith specifier ''./''
     \<or> startsWith specifier (''/'' @ resolvedAssetsDir p @ ''/'')
     \<or> startsWith specifier (''./'' @ resolvedAssetsDir p @ ''/'')"

text \<open>The specifier of a node whose source is a literal string.\<close>

definition literalSpecifier :: "ast_node \<Rightarrow> string option" where
  "literalSpecifier node =
     (case source node of
        None \<Rightarrow> None
      | Some src \<Rightarrow> (case expr src of Literal (StringValue s) \<Rightarrow> Some s | _ \<Rightarrow> None))"

text \<open>
  A site that is not to be touched: its source is not a literal string, or the literal
  is not a candidate.
\<close>

definition nonCandidate :: "plugin \<Rightarrow> ast_node \<Rightarrow> bool" where
  "nonCandidate p node \<longleftrightarrow>
     (case literalSpecifier node of None \<Rightarrow> True | Some s \<Rightarrow> \<not> isCandidate p s)"

text \<open>
  A node that records nothing: it has no literal string as source, or the literal is
  not a candidate, or the mapping has no specifier for its last segment, or an empty
  one.
\<close>

definition unresolved :: "plugin \<Rightarrow> ast_node \<Rightarrow> bool" where
  "unresolved p node \<longleftrightarrow>
     (case literalSpecifier node of
        None \<Rightarrow> True
      | Some s \<Rightarrow> \<not> isCandidate p s \<or> chunkMapping p (lastSegment s) = None
                  \<or> chunkMapping p (lastSegment s) = Some [])"

text \<open>
  The layout of a chunk around its reference sites.  A site is the source of a node as
  it stands in the code: the text \<open>before\<close> it (from the end of the previous site), the
  opening quote, the \<open>raw\<close> characters between the quotes, the closing quote; with the
  kind of node it is the source of, the expression the parser reports for it, and the
  stable specifier that is to replace the raw characters, if any.  (For a source that
  is not a literal the first and the last character of the expression stand where the
  quotes are.)  The code is the sites one after the other and the rest.
\<close>

record ref_site =
  before :: string
  open_quote :: char
  raw :: string
  close_quote :: char
  site_type :: node_type
  site_expr :: source_expr
  site_stable :: "string option"

fun originalText :: "ref_site list \<Rightarrow> string \<Rightarrow> string" where
  "originalText [] rest = rest"
| "originalText (s # ss) rest =
     before s @ [open_quote s] @ raw s @ [close_quote s] @ originalText ss rest"

text \<open>
  The same text with, between the quotes of every site that has one, its stable
  specifier.
\<close>

fun rewrittenText :: "ref_site list \<Rightarrow> string \<Rightarrow> string" where
  "rewrittenText [] rest = rest"
| "rewrittenText (s # ss) rest =
     before s @ [open_quote s] @ (case site_stable s of Some m \<Rightarrow> m | None \<Rightarrow> raw s)
       @ [close_quote s] @ rewrittenText ss rest"

text \<open>The nodes the parser reports for the sites of a layout that starts at an offset.\<close>

definition siteNode :: "nat \<Rightarrow> ref_site \<Rightarrow> ast_node" where
  "siteNode a s = \<lparr> ntype = site_type s,
       source = Some \<lparr> expr = site_expr s, src_start = a, src_end = a + length (raw s) + 2 \<rparr> \<rparr>"

fun siteNodes :: "nat \<Rightarrow> ref_site list \<Rightarrow> ast_node list" where
  "siteNodes off [] = []"
| "siteNodes off (s # ss) =
     siteNode (off + length (before s)) s
     # siteNodes (off + length (before s) + length (raw s) + 2) ss"

text \<open>
  The transforms that replace what is strictly between the quotes of each site that has
  a stable specifier.
\<close>

fun betweenQuotes :: "nat \<Rightarrow> ref_site list \<Rightarrow> rewrite_op list" where
  "betweenQuotes off [] = []"
| "betweenQuotes off (s # ss) =
     (case site_stable s of
        Some m \<Rightarrow> [\<lparr> op_start = off + length (before s) + 1,
                     op_end = off + length (before s) + 1 + length (raw s),
                     replacement = m \<rparr>]
      | None \<Rightarrow> [])
     @ betweenQuotes (off + length (before s) + length (raw s) + 2) ss"

text \<open>
  A site is found: its source is a literal string, a candidate, and the mapping has the
  stable specifier of the site, not empty, for its last segment.  The literal of a
  specifier that is not empty has raw characters.
\<close>

definition foundIn :: "plugin \<Rightarrow> ref_site \<Rightarrow> bool" where
  "foundIn p s \<longleftrightarrow>
     (case site_expr s of
        Literal (StringValue v) \<Rightarrow>
          (case site_stable s of
             Some m \<Rightarrow> isCandidate p v \<and> chunkMapping p (lastSegment v) = Some m
                        \<and> m \<noteq> [] \<and> raw s \<noteq> []
           | None \<Rightarrow> False)
      | _ \<Rightarrow> False)"

text \<open>A site is kept: it has no stable specifier, and its node records nothing.\<close>

definition keptIn :: "plugin \<Rightarrow> ref_site \<Rightarrow> bool" where
  "keptIn p s \<longleftrightarrow> site_stable s = None \<and> unresolved p (siteNode 0 s)"


text \<open>The aliases the second pass registers for an entry of the bundle.\<close>

definition aliasesOf :: "string \<times> output_chunk \<Rightarrow> string list" where
  "aliasesOf e = [fst e, filenameOnlyOf (fst e), name (snd e)]"

text \<open>A text that has \<open>//# sourceMappingURL=\<close> somewhere.\<close>

fun mentionsSourceMap :: "string \<Rightarrow> bool" where
  "mentionsSourceMap [] = False"
| "mentionsSourceMap (c # cs) \<longleftrightarrow> startsWith (c # cs) sourceMappingURL \<or> mentionsSourceMap cs"

text \<open>The directory part of a path, if the path has one.\<close>

definition directoryOf :: "string \<Rightarrow> string option" where
  "directoryOf fname =
     (if str_includes fname CHR ''/''
      then Some (str_join (butlast (str_split fname CHR ''/'')) CHR ''/'') else None)"

text \<open>The closure variables as the first two passes over a bundle leave them.\<close>

definition afterSecondPass :: "plugin \<Rightarrow> output_bundle \<Rightarrow> plugin" where
  "afterSecondPass p b = secondPass b (p\<lparr>baseNameCounts := countBaseNames b (baseNameCounts p)\<rparr>)"

text \<open>
  Renames staged without a clash: the old names are distinct and are chunks of the
  collection; the new names are distinct, end in \<open>.js\<close> as every name the third pass
  stages does, and are new to the collection; the old bare file names resolve to
  different specifiers, and none of them is a new name or new bare file name.
\<close>

definition stagedCleanly :: "plugin \<Rightarrow> output_bundle \<Rightarrow> (string \<times> string) list \<Rightarrow> bool" where
  "stagedCleanly p b rs \<longleftrightarrow>
     distinct (map fst rs) \<and> distinct (map snd rs)
     \<and> list_all (\<lambda>r. endsWith (snd r) ''.js'') rs
     \<and> set (map snd rs) \<inter> set (map fst b) = {}
     \<and> list_all (\<lambda>r. case map_of b (fst r) of Some c \<Rightarrow> otype c = Chunk | None \<Rightarrow> False) rs
     \<and> distinct (map (\<lambda>r. chunkMapping p (filenameOnlyOf (fst r))) rs)
     \<and> set (map (\<lambda>r. filenameOnlyOf (fst r)) rs)
         \<inter> (set (map snd rs) \<union> set (map (\<lambda>r. filenameOnlyOf (snd r)) rs)) = {}"

text \<open>How often a base name occurs among the script chunks of a bundle.\<close>

definition occurrences :: "output_bundle \<Rightarrow> string \<Rightarrow> nat" where
  "occurrences b n = length (filter (\<lambda>e. isScript (fst e) (snd e) \<and> name (snd e) = n) b)"

text \<open>
  The closure variables only grow from \<open>p\<close> to \<open>p'\<close>: the configuration and the counts
  are the same, no alias and no key of the table is lost.
\<close>

definition grows :: "plugin \<Rightarrow> plugin \<Rightarrow> bool" where
  "grows p p' \<longleftrightarrow>
     baseNameCounts p' = baseNameCounts p
     \<and> resolvedAssetsDir p' = resolvedAssetsDir p
     \<and> useAbsolutePaths p' = useAbsolutePaths p
     \<and> dom (chunkMapping p) \<subseteq> dom (chunkMapping p')
     \<and> set (map fst (importMap p)) \<subseteq> set (map fst (importMap p'))"

definition isByte :: "int \<Rightarrow> bool" where
  "isByte x \<longleftrightarrow> 0 \<le> x \<and> x < 256"

section \<open>Example inputs\<close>

text \<open>
  A bundle of one entry chunk without imports, and a parser for it: its code has no
  node of the four kinds.
\<close>

definition main_chunk :: output_chunk where
  "main_chunk = \<lparr> otype = Chunk, fileName = ''assets/main-4f2a9c1b.js'', name = ''main'',
      code = ''console.log(1)'', facadeModuleId = Some ''/src/main.ts'',
      moduleIds = Some [''/src/main.ts''], modules = Some [''/src/main.ts''], map' = None \<rparr>"

definition main_bundle :: output_bundle where
  "main_bundle = [(''assets/main-4f2a9c1b.js'', main_chunk)]"

definition no_imports :: parser where
  "no_imports c = Inr []"

text \<open>
  Two bundles of one chunk each, with different names and file names and the same code,
  which does not parse; and a parser that reports the error of that code.
\<close>

definition widget_bundle :: output_bundle where
  "widget_bundle = [(''assets/widget-11aa22bb.js'',
     \<lparr> otype = Chunk, fileName = ''assets/widget-11aa22bb.js'', name = ''widget'',
       code = ''export const = ;'', facadeModuleId = Some ''/src/widget.ts'',
       moduleIds = Some [''/src/widget.ts''], modules = Some [''/src/widget.ts''],
       map' = None \<rparr>)]"

definition gadget_bundle :: output_bundle where
  "gadget_bundle = [(''assets/gadget-33cc44dd.js'',
     \<lparr> otype = Chunk, fileName = ''assets/gadget-33cc44dd.js'', name = ''gadget'',
       code = ''export const = ;'', facadeModuleId = Some ''/src/gadget.ts'',
       moduleIds = Some [''/src/gadget.ts''], modules = Some [''/src/gadget.ts''],
       map' = None \<rparr>)]"

definition failing :: parser where
  "failing c = Inl ''SyntaxError: Unexpected token (1:13)''"

text \<open>
  Two builds of an application of two chunks.  \<open>main\<close> imports \<open>button\<close> by its hashed
  file name; between the builds the code of \<open>button\<close> changes, and with it the hash in
  its file name, the import in \<open>main\<close> and the hash the bundler gives \<open>main\<close>.  The
  parser knows code of two forms: one that starts with \<open>import x from "..."\<close>, an
  import declaration whose literal starts at offset 14 and ends at the next quote, and
  \<open>export ...\<close>, which has no node of the four kinds.
\<close>

definition main_v1 :: output_chunk where
  "main_v1 = \<lparr> otype = Chunk, fileName = ''assets/main-11111111.js'', name = ''main'',
      code = ''import x from \"./button-abc123.js\"'', facadeModuleId = Some ''/src/main.ts'',
      moduleIds = Some [''/src/main.ts''], modules = Some [''/src/main.ts''], map' = None \<rparr>"

definition button_v1 :: output_chunk where
  "button_v1 = \<lparr> otype = Chunk, fileName = ''assets/button-abc123.js'', name = ''button'',
      code = ''export const b = 1'', facadeModuleId = None,
      moduleIds = Some [''/src/button.ts''], modules = Some [''/src/button.ts''], map' = None \<rparr>"

definition app_v1 :: output_bundle where
  "app_v1 = [(''assets/main-11111111.js'', main_v1), (''assets/button-abc123.js'', button_v1)]"

definition main_v2 :: output_chunk where
  "main_v2 = \<lparr> otype = Chunk, fileName = ''assets/main-22222222.js'', name = ''main'',
      code = ''import x from \"./button-def456.js\"'', facadeModuleId = Some ''/src/main.ts'',
      moduleIds = Some [''/src/main.ts''], modules = Some [''/src/main.ts''], map' = None \<rparr>"

definition button_v2 :: output_chunk where
  "button_v2 = \<lparr> otype = Chunk, fileName = ''assets/button-def456.js'', name = ''button'',
      code = ''export const b = 2'', facadeModuleId = None,
      moduleIds = Some [''/src/button.ts''], modules = Some [''/src/button.ts''], map' = None \<rparr>"

definition app_v2 :: output_bundle where
  "app_v2 = [(''assets/main-22222222.js'', main_v2), (''assets/button-def456.js'', button_v2)]"

definition import_node :: "string \<Rightarrow> ast_node" where
  "import_node s = \<lparr> ntype = ImportDeclaration,
      source = Some \<lparr> expr = Literal (StringValue s), src_start = 14,
                      src_end = 16 + length s \<rparr> \<rparr>"

definition app_parser :: parser where
  "app_parser c =
     (if startsWith c ''import x from \"'' \<and> CHR 0x22 \<in> set (drop 15 c)
      then Inr [import_node (takeWhile (\<lambda>x. x \<noteq> CHR 0x22) (drop 15 c))]
      else if startsWith c ''export '' then Inr []
      else Inl ''SyntaxError: Unexpected token (1:1)'')"

text \<open>
  Two bundles with two chunks named \<open>utils\<close> each, from different entry modules: the
  pages \<open>a\<close> and \<open>b\<close> in the first, two numbered pages in the second.
\<close>

definition utils_chunk :: "string \<Rightarrow> string \<Rightarrow> string \<Rightarrow> output_chunk" where
  "utils_chunk fname facade c = \<lparr> otype = Chunk, fileName = fname, name = ''utils'',
      code = c, facadeModuleId = Some facade, moduleIds = Some [facade],
      modules = Some [facade], map' = None \<rparr>"

definition utils_ab :: output_bundle where
  "utils_ab =
     [(''assets/utils-aaaa1111.js'',
       utils_chunk ''assets/utils-aaaa1111.js'' ''/src/a/utils.ts'' ''export const a = 1''),
      (''assets/utils-bbbb2222.js'',
       utils_chunk ''assets/utils-bbbb2222.js'' ''/src/b/utils.ts'' ''export const b = 2'')]"

definition utils_pages :: output_bundle where
  "utils_pages =
     [(''assets/utils-aaaa1111.js'',
       utils_chunk ''assets/utils-aaaa1111.js'' ''/src/pages/p19386806/utils.ts''
         ''export const a = 1''),
      (''assets/utils-bbbb2222.js'',
       utils_chunk ''assets/utils-bbbb2222.js'' ''/src/pages/p1460079/utils.ts''
         ''export const b = 2'')]"

text \<open>A bundle of two chunks whose names are the numbers 9 and 10.\<close>

definition numbered_bundle :: output_bundle where
  "numbered_bundle =
     [(''assets/10-bbbb2222.js'',
       \<lparr> otype = Chunk, fileName = ''assets/10-bbbb2222.js'', name = ''10'',
         code = ''export const ten = 10'', facadeModuleId = Some ''/src/pages/10.ts'',
         moduleIds = Some [''/src/pages/10.ts''], modules = Some [''/src/pages/10.ts''],
         map' = None \<rparr>),
      (''assets/9-aaaa1111.js'',
       \<lparr> otype = Chunk, fileName = ''assets/9-aaaa1111.js'', name = ''9'',
         code = ''export const nine = 9'', facadeModuleId = Some ''/src/pages/9.ts'',
         moduleIds = Some [''/src/pages/9.ts''], modules = Some [''/src/pages/9.ts''],
         map' = None \<rparr>)]"

text \<open>
  The layout of \<open>import x from "./button-abc123.js"\<close>, one site and no rest, and a
  plugin whose mapping is \<open>{ "button-abc123.js": "button" }\<close>.
\<close>

definition button_site :: ref_site where
  "button_site = \<lparr> before = ''import x from '', open_quote = CHR 0x22,
      raw = ''./button-abc123.js'', close_quote = CHR 0x22, site_type = ImportDeclaration,
      site_expr = Literal (StringValue ''./button-abc123.js''), site_stable = Some ''button'' \<rparr>"






definition button_mapping :: plugin where
  "button_mapping = (importMapPlugin None)\<lparr>chunkMapping := [''button-abc123.js'' \<mapsto> ''button'']\<rparr>"

text \<open>
  The first build again, with the importing chunk left without a name by the bundler;
  and the first build as the third pass leaves it, with the rename it stages.
\<close>

definition unnamed_chunk :: output_chunk where
  "unnamed_chunk = \<lparr> otype = Chunk, fileName = ''assets/x-11aa22bb.js'', name = [],
      code = ''import x from \"./button-abc123.js\"'', facadeModuleId = Some ''/src/x.ts'',
      moduleIds = Some [''/src/x.ts''], modules = Some [''/src/x.ts''], map' = None \<rparr>"

definition unnamed_bundle :: output_bundle where
  "unnamed_bundle = [(''assets/x-11aa22bb.js'', unnamed_chunk), (''assets/button-abc123.js'', button_v1)]"

definition app_v1_rewritten :: output_bundle where
  "app_v1_rewritten =
     [(''assets/main-11111111.js'', main_v1\<lparr>code := ''import x from \"button\"''\<rparr>),
      (''assets/button-abc123.js'', button_v1)]"

definition app_v1_renames :: "(string \<times> string) list" where
  "app_v1_renames = [(''assets/main-11111111.js'', ''assets/main-tfL_2xSU.js'')]"

text \<open>
  Two pages whose files are both called \<open>index.js\<close>, in different directories, the
  first importing \<open>button\<close> from its own directory; and a bundle whose importing chunk
  is named \<open>__proto__\<close>.
\<close>

definition pages_bundle :: output_bundle where
  "pages_bundle =
     [(''a/index.js'',
       \<lparr> otype = Chunk, fileName = ''a/index.js'', name = ''pageA'',
         code = ''import x from \"./button-abc123.js\"'', facadeModuleId = Some ''/src/a.ts'',
         moduleIds = Some [''/src/a.ts''], modules = Some [''/src/a.ts''], map' = None \<rparr>),
      (''b/index.js'',
       \<lparr> otype = Chunk, fileName = ''b/index.js'', name = ''pageB'',
         code = ''export const b = 2'', facadeModuleId = Some ''/src/b.ts'',
         moduleIds = Some [''/src/b.ts''], modules = Some [''/src/b.ts''], map' = None \<rparr>),
      (''a/button-abc123.js'', button_v1\<lparr>fileName := ''a/button-abc123.js''\<rparr>)]"

definition proto_bundle :: output_bundle where
  "proto_bundle =
     [(''assets/__proto__-11aa22bb.js'',
       \<lparr> otype = Chunk, fileName = ''assets/__proto__-11aa22bb.js'', name = ''__proto__'',
         code = ''import x from \"./button-abc123.js\"'', facadeModuleId = Some ''/src/__proto__.ts'',
         moduleIds = Some [''/src/__proto__.ts''], modules = Some [''/src/__proto__.ts''],
         map' = None \<rparr>),
      (''assets/button-abc123.js'', button_v1)]"

text \<open>
  The two builds again, \<open>main\<close> now with a source map and the comment that refers to
  it; the comment names the file of the build.
\<close>

definition mapped_main :: "string \<Rightarrow> string \<Rightarrow> output_chunk" where
  "mapped_main fname c = \<lparr> otype = Chunk, fileName = fname, name = ''main'', code = c,
      facadeModuleId = Some ''/src/main.ts'', moduleIds = Some [''/src/main.ts''],
      modules = Some [''/src/main.ts''],
      map' = Some \<lparr> map_file = filenameOnlyOf fname, sources = [''../../src/main.ts''],
                     sourcesContent = None, mappings = BundlerMappings ''AAAA,SAAS'' \<rparr> \<rparr>"

definition mapped_v1 :: output_bundle where
  "mapped_v1 =
     [(''assets/main-11111111.js'',
       mapped_main ''assets/main-11111111.js''
         ''import x from \"./button-abc123.js\"\<newline>//# sourceMappingURL=main-11111111.js.map''),
      (''assets/button-abc123.js'', button_v1)]"

definition mapped_v2 :: output_bundle where
  "mapped_v2 =
     [(''assets/main-22222222.js'',
       mapped_main ''assets/main-22222222.js''
         ''import x from \"./button-def456.js\"\<newline>//# sourceMappingURL=main-22222222.js.map''),
      (''assets/button-def456.js'', button_v2)]"

text \<open>
  A third chunk named \<open>utils\<close>, without an entry module and with an empty string as its
  first module id; its module table has a key.
\<close>

definition bare_utils :: output_chunk where
  "bare_utils = \<lparr> otype = Chunk, fileName = ''assets/utils-cccc3333.js'', name = ''utils'',
      code = ''export const c = 3'', facadeModuleId = None, moduleIds = Some [[]],
      modules = Some [''/src/lib/utils.ts''], map' = None \<rparr>"


text \<open>
  A chunk in a subdirectory that imports \<open>button\<close> from the directory above; a chunk
  that imports the file of a chunk without a base name; and two pages whose files are
  both called \<open>index.js\<close>, with a helper beside the first that imports \<open>./index.js\<close>.
\<close>

definition nested_bundle :: output_bundle where
  "nested_bundle =
     [(''assets/pages/about-11112222.js'',
       \<lparr> otype = Chunk, fileName = ''assets/pages/about-11112222.js'', name = ''about'',
         code = ''import x from \"../button-abc123.js\"'', facadeModuleId = Some ''/src/pages/about.ts'',
         moduleIds = Some [''/src/pages/about.ts''], modules = Some [''/src/pages/about.ts''],
         map' = None \<rparr>),
      (''assets/button-abc123.js'', button_v1)]"

definition orphan_bundle :: output_bundle where
  "orphan_bundle =
     [(''assets/main-11111111.js'', main_v1\<lparr>code := ''import x from \"./x-11aa22bb.js\"''\<rparr>),
      (''assets/x-11aa22bb.js'', unnamed_chunk\<lparr>code := ''export const b = 1''\<rparr>)]"

definition page_chunk :: "string \<Rightarrow> string \<Rightarrow> string \<Rightarrow> output_chunk" where
  "page_chunk fname n c = \<lparr> otype = Chunk, fileName = fname, name = n, code = c,
      facadeModuleId = Some (''/src/'' @ n @ ''.ts''), moduleIds = Some [''/src/'' @ n @ ''.ts''],
      modules = Some [''/src/'' @ n @ ''.ts''], map' = None \<rparr>"

definition helper_bundle :: output_bundle where
  "helper_bundle =
     [(''a/index.js'', page_chunk ''a/index.js'' ''pageA'' ''export const a = 1''),
      (''b/index.js'', page_chunk ''b/index.js'' ''pageB'' ''export const b = 2''),
      (''a/helper-33334444.js'',
       page_chunk ''a/helper-33334444.js'' ''helper'' ''import x from \"./index.js\"'')]"

section \<open>The digest\<close>

text \<open>Two test vectors: the digest of \<open>abc\<close> and its first eight characters.\<close>

lemma sha256_abc:
  "sha256 (utf8 ''abc'') =
     [186, 120, 22, 191, 143, 1, 207, 234, 65, 65, 64, 222, 93, 174, 34, 35,
      176, 3, 97, 163, 150, 23, 122, 156, 180, 16, 255, 97, 242, 0, 21, 173]"
  by code_simp

lemma computeHash_abc: "computeHash ''abc'' = ''ungWv48B''"
  by code_simp

text \<open>The hash is always eight characters of the base64url alphabet.\<close>

lemma length_state_bytes: "length (state_bytes st) = 32"
  by (cases st rule: state_bytes.cases) (simp add: word_bytes_def)

lemma length_sha256: "length (sha256 m) = 32"
  by (simp add: sha256_def Let_def length_state_bytes)

lemma length_base64url_ge: "6 \<le> length xs \<Longrightarrow> 8 \<le> length (base64url xs)"
proof -
  assume "6 \<le> length xs"
  then obtain a b c d e f r where "xs = a # b # c # d # e # f # r"
    by (auto simp: eval_nat_numeral Suc_le_length_iff)
  then show ?thesis by simp
qed

lemma length_computeHash: "length (computeHash s) = 8"
  using length_base64url_ge [of "sha256 (utf8 s)"] by (simp add: computeHash_def length_sha256)

lemma bytes_state_bytes: "list_all isByte (state_bytes st)"
  by (cases st rule: state_bytes.cases) (simp add: word_bytes_def isByte_def)

lemma bytes_sha256: "list_all isByte (sha256 m)"
  by (simp add: sha256_def Let_def bytes_state_bytes)

lemma b64_in: "0 \<le> n \<Longrightarrow> n < 64 \<Longrightarrow> b64 n \<in> set base64url_alphabet"
proof -
  assume "0 \<le> n" "n < 64"
  then have "nat n < length base64url_alphabet" by (simp add: base64url_alphabet_def)
  then show ?thesis unfolding b64_def by (rule nth_mem)
qed

lemma b64_idx1: "isByte a \<Longrightarrow> b64 (a div 4) \<in> set base64url_alphabet"
  unfolding isByte_def by (rule b64_in) presburger+

lemma b64_idx2: "isByte a \<Longrightarrow> isByte b \<Longrightarrow> b64 ((a mod 4) * 16 + b div 16) \<in> set base64url_alphabet"
  unfolding isByte_def by (rule b64_in) presburger+

lemma b64_idx3: "isByte b \<Longrightarrow> isByte c \<Longrightarrow> b64 ((b mod 16) * 4 + c div 64) \<in> set base64url_alphabet"
  unfolding isByte_def by (rule b64_in) presburger+

lemma b64_idx4: "b64 (c mod 64) \<in> set base64url_alphabet"
  by (rule b64_in) presburger+

lemma b64_idx5: "b64 ((a mod 4) * 16) \<in> set base64url_alphabet"
  by (rule b64_in) presburger+

lemma b64_idx6: "b64 ((b mod 16) * 4) \<in> set base64url_alphabet"
  by (rule b64_in) presburger+

lemma base64url_safe: "list_all isByte xs \<Longrightarrow> set (base64url xs) \<subseteq> set base64url_alphabet"
proof (induction xs rule: base64url.induct)
  case (1 a b c r)
  then show ?case by (simp add: b64_idx1 b64_idx2 b64_idx3 b64_idx4)
next
  case (2 a b) then show ?case by (simp add: b64_idx1 b64_idx2 b64_idx6)
next
  case (3 a) then show ?case by (simp add: b64_idx1 b64_idx5)
next
  case 4 then show ?case by simp
qed

lemma computeHash_safe: "set (computeHash s) \<subseteq> set base64url_alphabet"
  using base64url_safe [OF bytes_sha256, of "utf8 s"] set_take_subset [of 8 "base64url (sha256 (utf8 s))"]
  by (auto simp: computeHash_def)


section \<open>Sites that are not candidates\<close>

lemma handle_nonCandidate: "nonCandidate p node \<Longrightarrow> handleImportSource p node = None"
  by (auto simp: nonCandidate_def literalSpecifier_def handleImportSource_def isCandidate_def Let_def
           split: option.splits source_expr.splits literal_value.splits)

lemma visit_nonCandidate: "nonCandidate p node \<Longrightarrow> visit p node = None"
  by (simp add: visit_def handle_nonCandidate split: option.splits source_expr.splits)

lemma collect_append: "collect p (xs @ ys) = collect p xs @ collect p ys"
  by (induction xs) (simp_all split: option.splits)

lemma collect_all_nonCandidate: "list_all (nonCandidate p) nodes \<Longrightarrow> collect p nodes = []"
  by (induction nodes) (simp_all add: visit_nonCandidate)

lemma sortBy_Nil: "sortBy cmp [] = []"
  by (simp add: sortBy_def)

lemma rewriteCode_no_ops:
  "parse c = Inr nodes \<Longrightarrow> collect p nodes = [] \<Longrightarrow> rewriteCode parse p c = Inr (c, [])"
  by (simp add: rewriteCode_def sortBy_Nil)

lemma transformChunk_no_ops:
  "rewriteCode parse p (code chunk) = Inr (t, []) \<Longrightarrow> transformChunk parse p fname chunk = Inr (chunk, None)"
  by (simp add: transformChunk_def)

section \<open>Objects\<close>

lemma keys_insertIndexed: "set (map fst (insertIndexed i k v obj)) = insert k (set (map fst obj))"
proof (induction obj)
  case Nil
  show ?case by simp
next
  case (Cons e obj)
  obtain k' v' where e: "e = (k', v')" by (cases e)
  have "set (map fst (insertIndexed i k v ((k', v') # obj))) = insert k (insert k' (set (map fst obj)))"
  proof (cases "arrayIndex k'")
    case None
    then show ?thesis by simp
  next
    case (Some j)
    show ?thesis
    proof (cases "j < i")
      case True
      then have "set (map fst (insertIndexed i k v ((k', v') # obj)))
          = insert k' (set (map fst (insertIndexed i k v obj)))"
        using Some by simp
      also have "\<dots> = insert k' (insert k (set (map fst obj)))" by (simp only: Cons.IH)
      finally show ?thesis by (simp only: insert_commute)
    next
      case False
      then show ?thesis using Some by simp
    qed
  qed
  then show ?case by (simp add: e)
qed

lemma map_fst_replace: "map fst (map (\<lambda>e. if fst e = k then (k, v) else e) obj) = map fst obj"
  by (induction obj) auto

lemma keys_objSet:
  "set (map fst (objSet obj k v)) =
     (if k = ''__proto__'' then set (map fst obj) else insert k (set (map fst obj)))"
proof (cases "k = ''__proto__''")
  case True
  then show ?thesis by (simp add: objSet_def)
next
  case stored: False
  show ?thesis
  proof (cases "k \<in> set (map fst obj)")
    case True
    then have "objSet obj k v = map (\<lambda>e. if fst e = k then (k, v) else e) obj"
      using stored by (simp add: objSet_def)
    then show ?thesis using True stored by (simp only: map_fst_replace insert_absorb if_False)
  next
    case False
    show ?thesis
    proof (cases "arrayIndex k")
      case None
      with False stored have "objSet obj k v = obj @ [(k, v)]" by (simp add: objSet_def)
      then show ?thesis using stored by simp
    next
      case (Some i)
      with False stored have "objSet obj k v = insertIndexed i k v obj" by (simp add: objSet_def)
      then show ?thesis using stored by (simp only: keys_insertIndexed if_False)
    qed
  qed
qed

lemma map_of_insertIndexed:
  "map_of (insertIndexed i k v obj) k' = (if k' = k then Some v else map_of obj k')"
  if "k \<notin> set (map fst obj)"
  using that
proof (induction obj)
  case Nil
  show ?case by simp
next
  case (Cons e obj)
  obtain a b where e: "e = (a, b)" by (cases e)
  from Cons.prems have ne: "a \<noteq> k" and rest: "k \<notin> set (map fst obj)" by (auto simp: e)
  show ?case using Cons.IH [OF rest] ne by (cases "arrayIndex a") (auto simp: e)
qed

lemma map_of_replace:
  "map_of (map (\<lambda>e. if fst e = k then (k, v) else e) obj) k' =
     (if k' = k \<and> k \<in> set (map fst obj) then Some v else map_of obj k')"
  by (induction obj) (simp, force)

lemma map_of_append_fresh:
  "k \<notin> set (map fst obj) \<Longrightarrow> map_of (obj @ [(k, v)]) k' = (if k' = k then Some v else map_of obj k')"
  by (induction obj) auto

lemma map_of_objSet:
  "map_of (objSet obj k v) k' = (if k' = k \<and> k \<noteq> ''__proto__'' then Some v else map_of obj k')"
proof (cases "k = ''__proto__''")
  case True
  then show ?thesis by (simp add: objSet_def)
next
  case stored: False
  show ?thesis
  proof (cases "k \<in> set (map fst obj)")
    case True
    then have "objSet obj k v = map (\<lambda>e. if fst e = k then (k, v) else e) obj"
      using stored by (simp add: objSet_def)
    then show ?thesis using True stored by (simp only: map_of_replace) simp
  next
    case False
    show ?thesis
    proof (cases "arrayIndex k")
      case None
      with False stored have "objSet obj k v = obj @ [(k, v)]" by (simp add: objSet_def)
      then show ?thesis using map_of_append_fresh [OF False] stored by simp
    next
      case (Some i)
      with False stored have "objSet obj k v = insertIndexed i k v obj" by (simp add: objSet_def)
      then show ?thesis using map_of_insertIndexed [OF False] stored by simp
    qed
  qed
qed

lemma distinct_insertIndexed:
  "distinct (map fst (insertIndexed i k v obj))"
  if "distinct (map fst obj)" "k \<notin> set (map fst obj)"
  using that
proof (induction obj)
  case Nil
  show ?case by simp
next
  case (Cons e obj)
  obtain a b where e: "e = (a, b)" by (cases e)
  from Cons.prems have d: "distinct (map fst obj)" and na: "a \<notin> set (map fst obj)"
    and ne: "a \<noteq> k" and rest: "k \<notin> set (map fst obj)" by (auto simp: e)
  have "a \<notin> set (map fst (insertIndexed i k v obj))"
    using na ne by (simp only: keys_insertIndexed) simp
  with Cons.IH [OF d rest] Cons.prems show ?case
    by (cases "arrayIndex a") (auto simp: e)
qed

lemma distinct_objSet: "distinct (map fst obj) \<Longrightarrow> distinct (map fst (objSet obj k v))"
proof (cases "k = ''__proto__''")
  case True
  assume "distinct (map fst obj)"
  with True show ?thesis by (simp add: objSet_def)
next
  case stored: False
  assume d: "distinct (map fst obj)"
  show ?thesis
  proof (cases "k \<in> set (map fst obj)")
    case True
    then have "objSet obj k v = map (\<lambda>e. if fst e = k then (k, v) else e) obj"
      using stored by (simp add: objSet_def)
    with d show ?thesis by (simp only: map_fst_replace)
  next
    case False
    show ?thesis
    proof (cases "arrayIndex k")
      case None
      with False stored have "objSet obj k v = obj @ [(k, v)]" by (simp add: objSet_def)
      then show ?thesis using d False by simp
    next
      case (Some i)
      with False stored have "objSet obj k v = insertIndexed i k v obj" by (simp add: objSet_def)
      then show ?thesis using distinct_insertIndexed [OF d False] by simp
    qed
  qed
qed

lemma keys_objSet_mono: "set (map fst obj) \<subseteq> set (map fst (objSet obj k v))"
  by (simp only: keys_objSet) (simp add: subset_insertI)

lemma grows_refl: "grows p p"
  by (simp add: grows_def)

lemma grows_trans:
  assumes "grows p q" and "grows q r"
  shows "grows p r"
proof -
  from assms have d1: "dom (chunkMapping p) \<subseteq> dom (chunkMapping q)"
    and d2: "dom (chunkMapping q) \<subseteq> dom (chunkMapping r)"
    and k1: "set (map fst (importMap p)) \<subseteq> set (map fst (importMap q))"
    and k2: "set (map fst (importMap q)) \<subseteq> set (map fst (importMap r))"
    and eqs: "baseNameCounts r = baseNameCounts p" "resolvedAssetsDir r = resolvedAssetsDir p"
      "useAbsolutePaths r = useAbsolutePaths p"
    unfolding grows_def by simp_all
  from d1 d2 have "dom (chunkMapping p) \<subseteq> dom (chunkMapping r)" by (rule subset_trans)
  moreover from k1 k2 have "set (map fst (importMap p)) \<subseteq> set (map fst (importMap r))"
    by (rule subset_trans)
  ultimately show ?thesis unfolding grows_def using eqs by blast
qed

section \<open>What the passes keep\<close>

lemma getCount_upd: "getCount (counts(k \<mapsto> c)) n = (if n = k then c else getCount counts n)"
  by (simp add: getCount_def)

lemma getCount_countBaseNames:
  "getCount (countBaseNames b counts) n = getCount counts n + occurrences b n"
  by (induction b arbitrary: counts) (auto simp: occurrences_def getCount_upd)

lemma grows_register:
  "grows p (p\<lparr>chunkMapping := (chunkMapping p)(a \<mapsto> m, b \<mapsto> m, c \<mapsto> m),
              importMap := objSet (importMap p) m v\<rparr>)"
  unfolding grows_def using keys_objSet_mono [of "importMap p" m v] by (auto simp del: set_map)

lemma secondPass_grows: "grows p (secondPass b p)"
proof (induction b arbitrary: p)
  case Nil
  show ?case by (simp add: grows_refl)
next
  case (Cons e es)
  obtain fname chunk where e: "e = (fname, chunk)" by (cases e)
  show ?case
  proof (cases "isScript fname chunk")
    case False
    then show ?thesis using Cons.IH [of p] by (simp add: e)
  next
    case True
    let ?m = "moduleSpecOf (baseNameCounts p) chunk"
    let ?q = "p\<lparr>chunkMapping := (chunkMapping p)
                 (fname \<mapsto> ?m, filenameOnlyOf fname \<mapsto> ?m, name chunk \<mapsto> ?m),
               importMap := objSet (importMap p) ?m (servedPath p (filenameOnlyOf fname))\<rparr>"
    have step: "secondPass (e # es) p = secondPass es ?q"
      using True by (simp add: e Let_def)
    show ?thesis unfolding step by (rule grows_trans [OF grows_register Cons.IH])
  qed
qed

lemma commitRename_cases:
  "fst (commitRename (old, new) (p, b)) = p
   \<or> (\<exists>m. chunkMapping p (filenameOnlyOf old) = Some m \<and> m \<noteq> []
        \<and> fst (commitRename (old, new) (p, b)) =
            p\<lparr>importMap := objSet (importMap p) m (servedPath p (filenameOnlyOf new)),
              chunkMapping := (chunkMapping p)
                (new \<mapsto> m, filenameOnlyOf new \<mapsto> m, filenameOnlyOf old \<mapsto> m)\<rparr>)"
  by (simp add: Let_def split: option.splits)

lemma commitRename_grows: "grows p (fst (commitRename r (p, b)))"
proof -
  obtain old new where r: "r = (old, new)" by (cases r)
  have "grows p (p\<lparr>importMap := objSet (importMap p) m v,
            chunkMapping := (chunkMapping p)(a \<mapsto> m, c \<mapsto> m, d \<mapsto> m)\<rparr>)" for m v a c d
    unfolding grows_def using keys_objSet_mono [of "importMap p" m v] by (auto simp del: set_map)
  then show ?thesis
    using commitRename_cases [of old new p b] unfolding r by (auto simp: grows_refl)
qed

lemma fourthPass_grows: "grows p (fst (fourthPass rs (p, b)))"
proof (induction rs arbitrary: p b)
  case Nil
  show ?case by (simp add: grows_refl)
next
  case (Cons r rs)
  obtain q c where step: "commitRename r (p, b) = (q, c)" by (cases "commitRename r (p, b)")
  have "grows p q" using commitRename_grows [of p r b] by (simp add: step)
  from grows_trans [OF this Cons.IH [of q c]] show ?case by (simp add: step)
qed

lemma generateBundle_after:
  "bundleAfter parse p b = Some b' \<Longrightarrow> generateBundle parse p b = Inr (pluginAfter parse p b, b')"
  by (auto simp: bundleAfter_def pluginAfter_def split: sum.splits)

section \<open>State across invocations\<close>

text \<open>
  C9, as stated, fails.  The mapping, the counts and the table are variables of the
  closure, created once by \<open>importMapPlugin\<close>, and \<open>generateBundle\<close> never clears
  them.  Called twice on the same one-chunk bundle, the second call finds the count of
  \<open>main\<close> at one, raises it to two, and registers the chunk under a second, hashed
  specifier: the table has two entries where one call leaves one.
\<close>

theorem state_persists_counterexample:
  "importMap (pluginAfter no_imports (importMapPlugin None) main_bundle)
     = [(''main'', ''/assets/main-4f2a9c1b.js'')]
   \<and> importMap (pluginAfter no_imports
        (pluginAfter no_imports (importMapPlugin None) main_bundle) main_bundle)
     = [(''main'', ''/assets/main-4f2a9c1b.js''), (''main-yFD-8L2m'', ''/assets/main-4f2a9c1b.js'')]
   \<and> chunkMapping (pluginAfter no_imports (importMapPlugin None) main_bundle) ''main''
     = Some ''main''
   \<and> chunkMapping (pluginAfter no_imports
        (pluginAfter no_imports (importMapPlugin None) main_bundle) main_bundle) ''main''
     = Some ''main-yFD-8L2m''"
  by code_simp

text \<open>
  C9, amended.  A plugin instance starts with an empty mapping, empty counts and an
  empty table.  A call of \<open>generateBundle\<close> that returns starts from the state it is
  given: every count is the count before plus the occurrences of the name among the
  script chunks of the bundle, and no alias and no key of the table is dropped.
\<close>

theorem state_per_plugin_instance:
  "chunkMapping (importMapPlugin opts) = Map.empty
   \<and> baseNameCounts (importMapPlugin opts) = Map.empty
   \<and> importMap (importMapPlugin opts) = []
   \<and> (generateBundle parse p b = Inr (p', b') \<longrightarrow>
        getCount (baseNameCounts p') n = getCount (baseNameCounts p) n + occurrences b n
        \<and> dom (chunkMapping p) \<subseteq> dom (chunkMapping p')
        \<and> set (map fst (importMap p)) \<subseteq> set (map fst (importMap p')))"
proof -
  have fresh: "chunkMapping (importMapPlugin opts) = Map.empty
     \<and> baseNameCounts (importMapPlugin opts) = Map.empty
     \<and> importMap (importMapPlugin opts) = []"
    by (simp add: importMapPlugin_def Let_def)
  have "getCount (baseNameCounts p') n = getCount (baseNameCounts p) n + occurrences b n
        \<and> dom (chunkMapping p) \<subseteq> dom (chunkMapping p')
        \<and> set (map fst (importMap p)) \<subseteq> set (map fst (importMap p'))"
    if run: "generateBundle parse p b = Inr (p', b')"
  proof -
    let ?p1 = "p\<lparr>baseNameCounts := countBaseNames b (baseNameCounts p)\<rparr>"
    let ?p2 = "secondPass b ?p1"
    from run obtain b3 rs where "fourthPass rs (?p2, b3) = (p', b')"
      by (auto simp: generateBundle_def Let_def split: sum.splits)
    then have "grows ?p2 p'" using fourthPass_grows [of ?p2 rs b3] by simp
    from grows_trans [OF secondPass_grows this] have g: "grows ?p1 p'" .
    then have "baseNameCounts p' = countBaseNames b (baseNameCounts p)"
      by (simp add: grows_def)
    moreover from g have "dom (chunkMapping p) \<subseteq> dom (chunkMapping p')"
      and "set (map fst (importMap p)) \<subseteq> set (map fst (importMap p'))"
      by (simp_all add: grows_def)
    ultimately show ?thesis by (simp add: getCount_countBaseNames)
  qed
  with fresh show ?thesis by blast
qed

theorem state_per_plugin_instance_witness:
  "generateBundle no_imports (importMapPlugin None) main_bundle
     = Inr (pluginAfter no_imports (importMapPlugin None) main_bundle, main_bundle)
   \<and> getCount (baseNameCounts (importMapPlugin None)) ''main'' = 0
   \<and> getCount (baseNameCounts (pluginAfter no_imports (importMapPlugin None) main_bundle)) ''main'' = 1
   \<and> getCount (baseNameCounts (pluginAfter no_imports
         (pluginAfter no_imports (importMapPlugin None) main_bundle) main_bundle)) ''main'' = 2"
proof -
  let ?p0 = "importMapPlugin None"
  let ?p1 = "pluginAfter no_imports ?p0 main_bundle"
  let ?p2 = "pluginAfter no_imports ?p1 main_bundle"
  have "bundleAfter no_imports ?p0 main_bundle = Some main_bundle" by code_simp
  then have run1: "generateBundle no_imports ?p0 main_bundle = Inr (?p1, main_bundle)"
    by (rule generateBundle_after)
  have "bundleAfter no_imports ?p1 main_bundle = Some main_bundle" by code_simp
  then have run2: "generateBundle no_imports ?p1 main_bundle = Inr (?p2, main_bundle)"
    by (rule generateBundle_after)
  have occ: "occurrences main_bundle ''main'' = 1" by code_simp
  have zero: "getCount (baseNameCounts ?p0) ''main'' = 0"
    using state_per_plugin_instance [of None] by (simp add: getCount_def)
  from state_per_plugin_instance [of None no_imports ?p0 main_bundle ?p1 main_bundle "''main''"]
    state_per_plugin_instance [of None no_imports ?p1 main_bundle ?p2 main_bundle "''main''"]
    run1 run2 occ zero
  show ?thesis by simp
qed

section \<open>Parse failures\<close>

text \<open>
  A script chunk with code that does not parse makes \<open>generateBundle\<close> throw, and the
  host, which runs \<open>transformIndexHtml\<close> only after a \<open>generateBundle\<close> that returned,
  emits no table.  The message is the fixed prefix and the text of a parse error.
\<close>

lemma rewriteCode_Inl:
  "rewriteCode parse p c = Inl m \<Longrightarrow> \<exists>e. m = ''Error parsing code: '' @ e"
  by (auto simp: rewriteCode_def Let_def split: sum.splits)

lemma transformChunk_Inl:
  "transformChunk parse p fname chunk = Inl m \<Longrightarrow> \<exists>e. m = ''Error parsing code: '' @ e"
  by (auto simp: transformChunk_def Let_def dest: rewriteCode_Inl split: if_splits sum.splits option.splits)

lemma transformChunk_parse_failure:
  "isScript fname chunk \<Longrightarrow> code chunk \<noteq> [] \<Longrightarrow> parse (code chunk) = Inl e \<Longrightarrow>
   transformChunk parse p fname chunk = Inl (''Error parsing code: '' @ e)"
  by (simp add: transformChunk_def isScript_def rewriteCode_def)

lemma thirdPass_parse_failure:
  "(fname, chunk) \<in> set b \<Longrightarrow> isScript fname chunk \<Longrightarrow> code chunk \<noteq> [] \<Longrightarrow>
   parse (code chunk) = Inl e \<Longrightarrow> \<exists>e'. thirdPass parse p b = Inl (''Error parsing code: '' @ e')"
proof (induction b)
  case Nil
  then show ?case by simp
next
  case (Cons x xs)
  obtain f c where x: "x = (f, c)" by (cases x)
  show ?case
  proof (cases "transformChunk parse p f c")
    case (Inl m)
    then show ?thesis using transformChunk_Inl [OF Inl] by (auto simp: x)
  next
    case (Inr r)
    then have "(fname, chunk) \<noteq> (f, c)"
      using transformChunk_parse_failure [of fname chunk parse e p] Cons.prems by auto
    with Cons.prems have "(fname, chunk) \<in> set xs" by (auto simp: x)
    from Cons.IH this Cons.prems(2,3,4) obtain e'
      where "thirdPass parse p xs = Inl (''Error parsing code: '' @ e')" by blast
    then show ?thesis using Inr by (cases r) (simp add: x)
  qed
qed

lemma parse_failure_is_fatal:
  assumes "(fname, chunk) \<in> set b" and "isScript fname chunk" and "code chunk \<noteq> []"
    and "parse (code chunk) = Inl e"
  shows "\<exists>e'. generateBundle parse p b = Inl (''Error parsing code: '' @ e')
              \<and> build parse localeCompare p b = Inl (''Error parsing code: '' @ e')"
proof -
  from thirdPass_parse_failure [of fname chunk b parse e] assms obtain e' where
    "thirdPass parse (secondPass b (p\<lparr>baseNameCounts := countBaseNames b (baseNameCounts p)\<rparr>)) b
       = Inl (''Error parsing code: '' @ e')" by blast
  then have "generateBundle parse p b = Inl (''Error parsing code: '' @ e')"
    by (simp add: generateBundle_def Let_def)
  then show ?thesis by (auto simp: build_def)
qed

text \<open>
  C7.  The message thrown is built from the parser's error alone, which sees the code
  and not the entry: two chunks with different names and file names and the same
  broken code abort their builds with the same message, which names neither.
\<close>

theorem parse_error_message_without_chunk:
  "thrown (generateBundle failing (importMapPlugin None) widget_bundle)
     = Some ''Error parsing code: SyntaxError: Unexpected token (1:13)''
   \<and> thrown (generateBundle failing (importMapPlugin None) gadget_bundle)
     = Some ''Error parsing code: SyntaxError: Unexpected token (1:13)''
   \<and> build failing codeUnitCompare (importMapPlugin None) widget_bundle
     = Inl ''Error parsing code: SyntaxError: Unexpected token (1:13)''"
  by code_simp

section \<open>The new file name of a rewritten chunk\<close>

lemma newFilePathOf_directory:
  "newFilePathOf fname nf = (case directoryOf fname of Some d \<Rightarrow> d @ ''/'' @ nf | None \<Rightarrow> nf)"
  by (simp add: newFilePathOf_def directoryOf_def)

lemma transformChunk_staged:
  assumes "transformChunk parse p fname chunk = Inr (chunk', Some path)"
    and "rewriteCode parse p (code chunk) = Inr (t, ts)"
  shows "path = newFilePathOf fname (newFileNameOf fname chunk t) \<and> ts \<noteq> []"
  using assms by (auto simp: transformChunk_def Let_def split: if_splits option.splits)

text \<open>
  Stripping removes every source-map comment, from its marker to the end of the line,
  and nothing else.
\<close>

lemma strip_untouched: "\<not> mentionsSourceMap s \<Longrightarrow> stripSourceMaps s = s"
  by (induction s) simp_all

lemma length_marker: "length sourceMappingURL = 21"
  by (simp add: sourceMappingURL_def)

lemma marker_no_border:
  "0 < k \<Longrightarrow> k < 21 \<Longrightarrow> take (21 - k) sourceMappingURL \<noteq> drop k sourceMappingURL"
proof -
  assume "0 < k" "k < 21"
  then have "k \<in> set [1..<21]" by simp
  moreover have "\<forall>k\<in>set [1..<21]. take (21 - k) sourceMappingURL \<noteq> drop k sourceMappingURL"
    by code_simp
  ultimately show ?thesis by blast
qed

lemma no_straddle:
  assumes "s \<noteq> []" and "\<not> startsWith s sourceMappingURL"
  shows "\<not> startsWith (s @ sourceMappingURL @ r) sourceMappingURL"
proof
  assume st: "startsWith (s @ sourceMappingURL @ r) sourceMappingURL"
  show False
  proof (cases "21 \<le> length s")
    case True
    with st have "startsWith s sourceMappingURL" by (simp add: startsWith_def length_marker)
    with assms(2) show False by contradiction
  next
    case False
    define k where "k = length s"
    from False assms(1) have k: "0 < k" "k < 21" by (simp_all add: k_def)
    from st have "take 21 (s @ sourceMappingURL @ r) = sourceMappingURL"
      by (simp add: startsWith_def length_marker)
    then have "s @ take (21 - k) sourceMappingURL = sourceMappingURL"
      using k by (simp add: k_def length_marker)
    then have "drop k (s @ take (21 - k) sourceMappingURL) = drop k sourceMappingURL" by simp
    then have "take (21 - k) sourceMappingURL = drop k sourceMappingURL" by (simp add: k_def)
    with marker_no_border [OF k] show False by contradiction
  qed
qed

lemma dropWhile_all: "list_all P u \<Longrightarrow> dropWhile P (u @ r) = dropWhile P r"
  by (induction u) simp_all

lemma strip_comment:
  assumes "\<not> mentionsSourceMap s" and "list_all (\<lambda>x. \<not> isLineTerminator x) u"
    and "r = [] \<or> isLineTerminator (hd r)"
  shows "stripSourceMaps (s @ sourceMappingURL @ u @ r) = s @ stripSourceMaps r"
  using assms(1)
proof (induction s)
  case Nil
  have m: "sourceMappingURL = CHR ''/'' # tl sourceMappingURL" by (simp add: sourceMappingURL_def)
  have "list_all (\<lambda>x. \<not> isLineTerminator x) (tl sourceMappingURL)"
    by (simp add: sourceMappingURL_def isLineTerminator_def)
  with assms(2) have "list_all (\<lambda>x. \<not> isLineTerminator x) (tl sourceMappingURL @ u)" by simp
  then have "dropWhile (\<lambda>x. \<not> isLineTerminator x) ((tl sourceMappingURL @ u) @ r)
      = dropWhile (\<lambda>x. \<not> isLineTerminator x) r" by (rule dropWhile_all)
  also have "\<dots> = r" using assms(3) by (cases r) simp_all
  finally have d: "dropWhile (\<lambda>x. \<not> isLineTerminator x) (tl sourceMappingURL @ u @ r) = r" by simp
  have "startsWith (CHR ''/'' # tl sourceMappingURL @ u @ r) sourceMappingURL"
    using m by (metis append_Cons append_eq_conv_conj startsWith_def)
  then have "stripSourceMaps (CHR ''/'' # tl sourceMappingURL @ u @ r) = stripSourceMaps r"
    by (simp add: d)
  then show ?case using m by (metis append_Cons append_Nil)
next
  case (Cons c cs)
  then have ns: "\<not> startsWith (c # cs) sourceMappingURL" and rest: "\<not> mentionsSourceMap cs"
    by simp_all
  from no_straddle [OF _ ns, of "u @ r"]
  have "\<not> startsWith (c # cs @ sourceMappingURL @ u @ r) sourceMappingURL" by simp
  then show ?case using Cons.IH [OF rest] by simp
qed

lemma transformChunk_stages:
  assumes "isScript fname chunk" and "code chunk \<noteq> []"
    and "rewriteCode parse p (code chunk) = Inr (t, ts)" and "ts \<noteq> []"
    and "transformChunk parse p fname chunk = Inr (chunk', staged)"
  shows "staged = Some (newFilePathOf fname (newFileNameOf fname chunk t))"
  using assms by (auto simp: transformChunk_def isScript_def Let_def split: option.splits)

text \<open>
  C1, as stated, fails for a chunk without a rewritten reference: the third pass skips
  it, and it keeps the file name the bundler gave it.  In the first build of the
  example application \<open>button\<close> stays \<open>assets/button-abc123.js\<close>, which is not the name
  its own code would give, \<open>assets/button-tNPdLC70.js\<close>.  It fails as well for a
  rewritten chunk without a base name, which is staged under its old bare file name.
\<close>

theorem filename_not_from_code_counterexample:
  "bundleAfter app_parser (importMapPlugin None) app_v1
     = Some [(''assets/button-abc123.js'', button_v1),
             (''assets/main-tfL_2xSU.js'',
              main_v1\<lparr>code := ''import x from \"button\"'', fileName := ''assets/main-tfL_2xSU.js''\<rparr>)]
   \<and> newFilePathOf ''assets/button-abc123.js''
         (name button_v1 @ ''-'' @ computeHash (stripSourceMaps (code button_v1)) @ ''.js'')
       = ''assets/button-tNPdLC70.js''
   \<and> transformChunk app_parser (afterSecondPass (importMapPlugin None) unnamed_bundle)
         ''assets/x-11aa22bb.js'' unnamed_chunk
       = Inr (unnamed_chunk\<lparr>code := ''import x from \"button\"''\<rparr>, Some ''assets/x-11aa22bb.js'')"
  by code_simp

text \<open>
  C1, amended.  A chunk in which no reference is rewritten is left as it is, and no
  rename is staged for it.  For a script chunk with code and at least one rewritten
  reference the staged path is the old directory and the new file name:
  \<open>baseName-digest.js\<close>, the digest being the eight characters \<open>computeHash\<close> gives for
  the rewritten code without its source-map comments, or the old bare file name when
  the base name is empty.  So two builds in which the chunk has the same base name, not
  empty, and the same rewritten code up to source-map comments stage the same file
  name, and the same path when the directory is the same, whatever the other chunks,
  the mapping and the old file names are.  Stripping takes away each comment from
  \<open>//# sourceMappingURL=\<close> to the end of its line and leaves all other text.
\<close>

theorem no_cascade:
  assumes "transformChunk parse1 p1 fname1 A1 = Inr (A1', staged1)"
    and "transformChunk parse2 p2 fname2 A2 = Inr (A2', staged2)"
    and "rewriteCode parse1 p1 (code A1) = Inr (t1, ts1)"
    and "rewriteCode parse2 p2 (code A2) = Inr (t2, ts2)"
  shows "(ts1 = [] \<longrightarrow> A1' = A1 \<and> staged1 = None)
       \<and> (isScript fname1 A1 \<and> code A1 \<noteq> [] \<and> ts1 \<noteq> [] \<longrightarrow>
            staged1 = Some (newFilePathOf fname1
              (if name A1 \<noteq> [] then name A1 @ ''-'' @ computeHash (stripSourceMaps t1) @ ''.js''
               else filenameOnlyOf fname1)))
       \<and> length (computeHash (stripSourceMaps t1)) = 8
       \<and> (staged1 = Some path1 \<and> staged2 = Some path2 \<and> name A1 = name A2 \<and> name A1 \<noteq> []
            \<and> stripSourceMaps t1 = stripSourceMaps t2 \<longrightarrow>
            newFileNameOf fname1 A1 t1 = newFileNameOf fname2 A2 t2
            \<and> path1 = newFilePathOf fname1 (newFileNameOf fname1 A1 t1)
            \<and> path2 = newFilePathOf fname2 (newFileNameOf fname1 A1 t1)
            \<and> (directoryOf fname1 = directoryOf fname2 \<longrightarrow> path1 = path2))
       \<and> (\<not> mentionsSourceMap s \<and> list_all (\<lambda>x. \<not> isLineTerminator x) u
            \<and> (r = [] \<or> isLineTerminator (hd r)) \<longrightarrow>
            stripSourceMaps (s @ sourceMappingURL @ u @ r) = s @ stripSourceMaps r)
       \<and> (\<not> mentionsSourceMap s \<longrightarrow> stripSourceMaps s = s)"
proof -
  have skipped: "ts1 = [] \<longrightarrow> A1' = A1 \<and> staged1 = None"
    using transformChunk_no_ops [of parse1 p1 A1 t1 fname1] assms(1,3) by auto
  have staged: "isScript fname1 A1 \<and> code A1 \<noteq> [] \<and> ts1 \<noteq> [] \<longrightarrow>
      staged1 = Some (newFilePathOf fname1
        (if name A1 \<noteq> [] then name A1 @ ''-'' @ computeHash (stripSourceMaps t1) @ ''.js''
         else filenameOnlyOf fname1))"
    using transformChunk_stages [OF _ _ assms(3) _ assms(1)]
    by (auto simp: newFileNameOf_def Let_def)
  have builds: "newFileNameOf fname1 A1 t1 = newFileNameOf fname2 A2 t2
      \<and> path1 = newFilePathOf fname1 (newFileNameOf fname1 A1 t1)
      \<and> path2 = newFilePathOf fname2 (newFileNameOf fname1 A1 t1)
      \<and> (directoryOf fname1 = directoryOf fname2 \<longrightarrow> path1 = path2)"
    if h: "staged1 = Some path1" "staged2 = Some path2" "name A1 = name A2" "name A1 \<noteq> []"
      "stripSourceMaps t1 = stripSourceMaps t2"
  proof -
    have n: "newFileNameOf fname1 A1 t1 = newFileNameOf fname2 A2 t2"
      using h(3,4,5) by (simp add: newFileNameOf_def Let_def)
    from transformChunk_staged [OF assms(1) [unfolded h(1)] assms(3)]
    have p1: "path1 = newFilePathOf fname1 (newFileNameOf fname1 A1 t1)" by simp
    from transformChunk_staged [OF assms(2) [unfolded h(2)] assms(4)] n
    have p2: "path2 = newFilePathOf fname2 (newFileNameOf fname1 A1 t1)" by simp
    from n p1 p2 show ?thesis by (simp add: newFilePathOf_directory)
  qed
  note len = length_computeHash [of "stripSourceMaps t1"]
  have strip: "\<not> mentionsSourceMap s \<and> list_all (\<lambda>x. \<not> isLineTerminator x) u
      \<and> (r = [] \<or> isLineTerminator (hd r)) \<longrightarrow>
      stripSourceMaps (s @ sourceMappingURL @ u @ r) = s @ stripSourceMaps r"
    using strip_comment [of s u r] by blast
  have keep: "\<not> mentionsSourceMap s \<longrightarrow> stripSourceMaps s = s"
    using strip_untouched [of s] by blast
  show ?thesis
    apply (intro conjI)
    subgoal by (fact skipped)
    subgoal by (fact staged)
    subgoal by (fact len)
    subgoal using builds by blast
    subgoal by (fact strip)
    subgoal by (fact keep)
    done
qed

theorem no_cascade_witness:
  "transformChunk app_parser (afterSecondPass (importMapPlugin None) mapped_v1)
       ''assets/main-11111111.js'' (snd (hd mapped_v1))
     = Inr ((snd (hd mapped_v1))
              \<lparr>code := ''import x from \"button\"\<newline>//# sourceMappingURL=main-w6eWaciI.js.map'',
               map' := Some \<lparr> map_file = ''main-w6eWaciI.js'', sources = [''../../src/main.ts''],
                 sourcesContent = Some [code (snd (hd mapped_v1))],
                 mappings = SpliceMappings [(15, 33, ''button'')] \<rparr>\<rparr>,
            Some ''assets/main-w6eWaciI.js'')
   \<and> transformChunk app_parser (afterSecondPass (importMapPlugin None) mapped_v2)
       ''assets/main-22222222.js'' (snd (hd mapped_v2))
     = Inr ((snd (hd mapped_v2))
              \<lparr>code := ''import x from \"button\"\<newline>//# sourceMappingURL=main-w6eWaciI.js.map'',
               map' := Some \<lparr> map_file = ''main-w6eWaciI.js'', sources = [''../../src/main.ts''],
                 sourcesContent = Some [code (snd (hd mapped_v2))],
                 mappings = SpliceMappings [(15, 33, ''button'')] \<rparr>\<rparr>,
            Some ''assets/main-w6eWaciI.js'')
   \<and> code button_v1 \<noteq> code button_v2
   \<and> Some ''assets/main-w6eWaciI.js''
     = Some (newFilePathOf ''assets/main-11111111.js''
         (''main'' @ ''-'' @ computeHash ''import x from \"button\"\<newline>'' @ ''.js''))
   \<and> stripSourceMaps ''import x from \"button\"\<newline>//# sourceMappingURL=main-11111111.js.map''
     = ''import x from \"button\"\<newline>''
   \<and> stripSourceMaps ''import x from \"button\"\<newline>//# sourceMappingURL=main-22222222.js.map''
     = ''import x from \"button\"\<newline>''
   \<and> transformChunk app_parser (afterSecondPass (importMapPlugin None) mapped_v1)
       ''assets/button-abc123.js'' button_v1 = Inr (button_v1, None)"
proof -
  let ?p1 = "afterSecondPass (importMapPlugin None) mapped_v1"
  let ?p2 = "afterSecondPass (importMapPlugin None) mapped_v2"
  let ?A1 = "snd (hd mapped_v1)"
  let ?A2 = "snd (hd mapped_v2)"
  let ?op = "\<lparr> op_start = 15, op_end = 33, replacement = ''button'' \<rparr>"
  let ?s = "''import x from \"button\"\<newline>''"
  let ?u1 = "''main-11111111.js.map''"
  let ?u2 = "''main-22222222.js.map''"
  let ?t1 = "''import x from \"button\"\<newline>//# sourceMappingURL=main-11111111.js.map''"
  let ?t2 = "''import x from \"button\"\<newline>//# sourceMappingURL=main-22222222.js.map''"
  let ?A1' = "?A1\<lparr>code := ''import x from \"button\"\<newline>//# sourceMappingURL=main-w6eWaciI.js.map'',
               map' := Some \<lparr> map_file = ''main-w6eWaciI.js'', sources = [''../../src/main.ts''],
                 sourcesContent = Some [code ?A1],
                 mappings = SpliceMappings [(15, 33, ''button'')] \<rparr>\<rparr>"
  let ?A2' = "?A2\<lparr>code := ''import x from \"button\"\<newline>//# sourceMappingURL=main-w6eWaciI.js.map'',
               map' := Some \<lparr> map_file = ''main-w6eWaciI.js'', sources = [''../../src/main.ts''],
                 sourcesContent = Some [code ?A2],
                 mappings = SpliceMappings [(15, 33, ''button'')] \<rparr>\<rparr>"
  have c1: "transformChunk app_parser ?p1 ''assets/main-11111111.js'' ?A1
      = Inr (?A1', Some ''assets/main-w6eWaciI.js'')"
    by code_simp
  have c2: "transformChunk app_parser ?p2 ''assets/main-22222222.js'' ?A2
      = Inr (?A2', Some ''assets/main-w6eWaciI.js'')"
    by code_simp
  have r1: "rewriteCode app_parser ?p1 (code ?A1) = Inr (?t1, [?op])" by code_simp
  have r2: "rewriteCode app_parser ?p2 (code ?A2) = Inr (?t2, [?op])" by code_simp
  have cb: "transformChunk app_parser ?p1 ''assets/button-abc123.js'' button_v1 = Inr (button_v1, None)"
    by code_simp
  have rb: "rewriteCode app_parser ?p1 (code button_v1) = Inr (code button_v1, [])" by code_simp
  have script: "isScript ''assets/main-11111111.js'' ?A1 \<and> code ?A1 \<noteq> [] \<and> [?op] \<noteq> []"
    by code_simp
  have named: "name ?A1 = ''main''" "name ?A1 \<noteq> []" "name ?A1 = name ?A2" by code_simp+
  have dir: "directoryOf ''assets/main-11111111.js'' = directoryOf ''assets/main-22222222.js''"
    by code_simp
  have pre1: "\<not> mentionsSourceMap ?s \<and> list_all (\<lambda>x. \<not> isLineTerminator x) ?u1
      \<and> ([] = ([] :: string) \<or> isLineTerminator (hd []))" by code_simp
  have pre2: "\<not> mentionsSourceMap ?s \<and> list_all (\<lambda>x. \<not> isLineTerminator x) ?u2
      \<and> ([] = ([] :: string) \<or> isLineTerminator (hd []))" by code_simp
  have e1: "?s @ sourceMappingURL @ ?u1 @ [] = ?t1" and e2: "?s @ sourceMappingURL @ ?u2 @ [] = ?t2"
    and e0: "?s @ stripSourceMaps [] = ?s"
    by code_simp+
  have ne: "(''main'' \<noteq> []) = True" by simp
  have d: "code button_v1 \<noteq> code button_v2" by (simp add: button_v1_def button_v2_def)
  note nc1 = no_cascade [OF c1 c2 r1 r2, where s = ?s and u = ?u1 and r = "[]" and
      ?path1.0 = "''assets/main-w6eWaciI.js''" and ?path2.0 = "''assets/main-w6eWaciI.js''"]
  note nc2 = no_cascade [OF c2 c1 r2 r1, where s = ?s and u = ?u2 and r = "[]"]
  note ncb = no_cascade [OF cb c2 rb r2]
  from nc1 pre1 have "stripSourceMaps (?s @ sourceMappingURL @ ?u1 @ []) = ?s @ stripSourceMaps []"
    by blast
  then have s1: "stripSourceMaps ?t1 = ?s" by (simp only: e1 e0)
  from nc2 pre2 have "stripSourceMaps (?s @ sourceMappingURL @ ?u2 @ []) = ?s @ stripSourceMaps []"
    by blast
  then have s2: "stripSourceMaps ?t2 = ?s" by (simp only: e2 e0)
  from nc1 script have "Some ''assets/main-w6eWaciI.js'' = Some (newFilePathOf ''assets/main-11111111.js''
              (if name ?A1 \<noteq> [] then name ?A1 @ ''-'' @ computeHash (stripSourceMaps ?t1) @ ''.js''
               else filenameOnlyOf ''assets/main-11111111.js''))"
    by blast
  then have n: "Some ''assets/main-w6eWaciI.js''
      = Some (newFilePathOf ''assets/main-11111111.js'' (''main'' @ ''-'' @ computeHash ?s @ ''.js''))"
    by (simp only: s1 named(1) ne if_True)
  from nc1 named(2,3) s1 s2 dir
  have same: "''assets/main-w6eWaciI.js'' = ''assets/main-w6eWaciI.js''" by blast
  from ncb have kept: "button_v1 = button_v1 \<and> (None :: string option) = None" by blast
  show ?thesis
    apply (intro conjI)
    subgoal by (fact c1)
    subgoal by (fact c2)
    subgoal by (fact d)
    subgoal by (fact n)
    subgoal by (fact s1)
    subgoal by (fact s2)
    subgoal by (fact cb)
    done
qed

section \<open>Stable specifiers\<close>

lemma getCount_fresh: "getCount (countBaseNames b Map.empty) n = occurrences b n"
  by (simp add: getCount_countBaseNames) (simp add: getCount_def)

lemma sourcePathOf_frame:
  "sourcePathOf (chunk\<lparr>code := c', fileName := f', map' := m'\<rparr>) = sourcePathOf chunk"
  by (simp add: sourcePathOf_def cong: option.case_cong list.case_cong)

text \<open>
  C3, as stated, fails in its last part: the fingerprint keeps eight characters, 48
  bits, of the digest, and different identity keys can share them.  Two chunks named
  \<open>utils\<close> whose entry modules are \<open>/src/pages/p19386806/utils.ts\<close> and
  \<open>/src/pages/p1460079/utils.ts\<close> are both assigned \<open>utils-XURJBowP\<close>, and the table
  is left with one entry for the two.  The chain of identities does not always reach the
  module table either: a list of module ids whose first entry is the empty string ends
  the search, and the key is the base name alone.
\<close>

theorem specifier_collision_counterexample:
  "chunkMapping (afterSecondPass (importMapPlugin None) utils_pages) ''assets/utils-aaaa1111.js''
     = Some ''utils-XURJBowP''
   \<and> chunkMapping (afterSecondPass (importMapPlugin None) utils_pages) ''assets/utils-bbbb2222.js''
     = Some ''utils-XURJBowP''
   \<and> importMap (afterSecondPass (importMapPlugin None) utils_pages)
     = [(''utils-XURJBowP'', ''/assets/utils-bbbb2222.js'')]
   \<and> hashInputOf (snd (hd utils_pages)) \<noteq> hashInputOf (snd (last utils_pages))
   \<and> moduleSpecOf
         (countBaseNames (utils_ab @ [(''assets/utils-cccc3333.js'', bare_utils)]) Map.empty)
         bare_utils
       = ''utils-b9iXNBLK''
   \<and> computeHash ''utils'' = ''b9iXNBLK''
   \<and> computeHash ''/src/lib/utils.ts:utils'' = ''48ehk3Vd''"
  by code_simp

text \<open>
  C3, amended.  On a fresh plugin a script chunk whose base name occurs once is assigned
  its base name; one whose base name occurs more often is assigned the base name, a
  dash and the hash of its identity key, eight characters of the base64url alphabet.
  The key is an id, a colon and the base name.  The id is the entry module id when that
  is present and not empty; else the first module id when the list of module ids is
  present and not empty; else the first key of the module table when that is present
  and not empty.  When the id so chosen is the empty string, or there is none, the key
  is the base name alone.  Two
  chunks with the same colliding base name get the same specifier exactly when the
  hashes of their keys are the same, and the specifier does not depend on the code, the
  file name or the source map of the chunk.
\<close>

theorem stable_specifier:
  "(occurrences b (name chunk) \<le> 1 \<longrightarrow>
      moduleSpecOf (countBaseNames b Map.empty) chunk = name chunk)
   \<and> (1 < occurrences b (name chunk) \<longrightarrow>
      moduleSpecOf (countBaseNames b Map.empty) chunk
        = name chunk @ ''-'' @ computeHash (hashInputOf chunk))
   \<and> length (computeHash (hashInputOf chunk)) = 8
   \<and> set (computeHash (hashInputOf chunk)) \<subseteq> set base64url_alphabet
   \<and> (facadeModuleId chunk = Some f \<and> f \<noteq> [] \<longrightarrow> hashInputOf chunk = f @ '':'' @ name chunk)
   \<and> (facadeModuleId chunk \<in> {None, Some []} \<and> moduleIds chunk = Some (m # ms) \<and> m \<noteq> [] \<longrightarrow>
        hashInputOf chunk = m @ '':'' @ name chunk)
   \<and> (facadeModuleId chunk \<in> {None, Some []} \<and> moduleIds chunk \<in> {None, Some []}
        \<and> modules chunk = Some (k # ks) \<and> k \<noteq> [] \<longrightarrow>
        hashInputOf chunk = k @ '':'' @ name chunk)
   \<and> (facadeModuleId chunk \<in> {None, Some []} \<and> moduleIds chunk \<in> {None, Some []}
        \<and> modules chunk \<in> {None, Some []} \<longrightarrow>
        hashInputOf chunk = name chunk)
   \<and> (facadeModuleId chunk \<in> {None, Some []} \<and> moduleIds chunk = Some ([] # ms) \<longrightarrow>
        hashInputOf chunk = name chunk)
   \<and> (facadeModuleId chunk \<in> {None, Some []} \<and> moduleIds chunk \<in> {None, Some []}
        \<and> modules chunk = Some ([] # ks) \<longrightarrow>
        hashInputOf chunk = name chunk)
   \<and> (name chunk = name other \<and> 1 < occurrences b (name chunk) \<longrightarrow>
        (moduleSpecOf (countBaseNames b Map.empty) chunk
           = moduleSpecOf (countBaseNames b Map.empty) other
         \<longleftrightarrow> computeHash (hashInputOf chunk) = computeHash (hashInputOf other)))
   \<and> moduleSpecOf (countBaseNames b Map.empty) (chunk\<lparr>code := c', fileName := f', map' := m'\<rparr>)
        = moduleSpecOf (countBaseNames b Map.empty) chunk"
proof -
  have unique: "occurrences b (name chunk) \<le> 1 \<longrightarrow>
      moduleSpecOf (countBaseNames b Map.empty) chunk = name chunk"
    by (simp add: moduleSpecOf_def Let_def getCount_fresh)
  have colliding: "1 < occurrences b (name chunk) \<longrightarrow>
      moduleSpecOf (countBaseNames b Map.empty) chunk
        = name chunk @ ''-'' @ computeHash (hashInputOf chunk)"
    by (simp add: moduleSpecOf_def Let_def getCount_fresh)
  have facade: "facadeModuleId chunk = Some f \<and> f \<noteq> [] \<longrightarrow> hashInputOf chunk = f @ '':'' @ name chunk"
    by (auto simp: hashInputOf_def sourcePathOf_def Let_def split: list.splits)
  have first_id: "facadeModuleId chunk \<in> {None, Some []} \<and> moduleIds chunk = Some (m # ms) \<and> m \<noteq> [] \<longrightarrow>
        hashInputOf chunk = m @ '':'' @ name chunk"
    by (auto simp: hashInputOf_def sourcePathOf_def Let_def split: option.splits list.splits)
  have first_key: "facadeModuleId chunk \<in> {None, Some []} \<and> moduleIds chunk \<in> {None, Some []}
        \<and> modules chunk = Some (k # ks) \<and> k \<noteq> [] \<longrightarrow>
        hashInputOf chunk = k @ '':'' @ name chunk"
    by (auto simp: hashInputOf_def sourcePathOf_def Let_def split: option.splits list.splits)
  have nothing: "facadeModuleId chunk \<in> {None, Some []} \<and> moduleIds chunk \<in> {None, Some []}
        \<and> modules chunk \<in> {None, Some []} \<longrightarrow>
        hashInputOf chunk = name chunk"
    by (auto simp: hashInputOf_def sourcePathOf_def Let_def split: option.splits list.splits)
  have empty_id: "facadeModuleId chunk \<in> {None, Some []} \<and> moduleIds chunk = Some ([] # ms) \<longrightarrow>
        hashInputOf chunk = name chunk"
    by (auto simp: hashInputOf_def sourcePathOf_def Let_def split: option.splits list.splits)
  have empty_key: "facadeModuleId chunk \<in> {None, Some []} \<and> moduleIds chunk \<in> {None, Some []}
        \<and> modules chunk = Some ([] # ks) \<longrightarrow>
        hashInputOf chunk = name chunk"
    by (auto simp: hashInputOf_def sourcePathOf_def Let_def split: option.splits list.splits)
  have same: "name chunk = name other \<and> 1 < occurrences b (name chunk) \<longrightarrow>
        (moduleSpecOf (countBaseNames b Map.empty) chunk
           = moduleSpecOf (countBaseNames b Map.empty) other
         \<longleftrightarrow> computeHash (hashInputOf chunk) = computeHash (hashInputOf other))"
    by (auto simp: moduleSpecOf_def Let_def getCount_fresh)
  have content: "moduleSpecOf (countBaseNames b Map.empty) (chunk\<lparr>code := c', fileName := f', map' := m'\<rparr>)
        = moduleSpecOf (countBaseNames b Map.empty) chunk"
    by (simp add: moduleSpecOf_def hashInputOf_def sourcePathOf_frame Let_def)
  note len = length_computeHash [of "hashInputOf chunk"]
    and safe = computeHash_safe [of "hashInputOf chunk"]
  show ?thesis
    apply (intro conjI)
    subgoal by (fact unique)
    subgoal by (fact colliding)
    subgoal by (fact len)
    subgoal by (fact safe)
    subgoal by (fact facade)
    subgoal by (fact first_id)
    subgoal by (fact first_key)
    subgoal by (fact nothing)
    subgoal by (fact empty_id)
    subgoal by (fact empty_key)
    subgoal by (fact same)
    subgoal by (fact content)
    done
qed

theorem stable_specifier_witness:
  "occurrences utils_ab ''utils'' = 2
   \<and> moduleSpecOf (countBaseNames utils_ab Map.empty)
         (utils_chunk ''assets/utils-aaaa1111.js'' ''/src/a/utils.ts'' ''export const a = 1'')
       = ''utils-J_xzEmEc''
   \<and> moduleSpecOf (countBaseNames utils_ab Map.empty)
         (utils_chunk ''assets/utils-bbbb2222.js'' ''/src/b/utils.ts'' ''export const b = 2'')
       = ''utils-SPVSbTzm''
   \<and> occurrences app_v1 ''button'' = 1
   \<and> moduleSpecOf (countBaseNames app_v1 Map.empty) button_v1 = ''button''
   \<and> hashInputOf bare_utils = ''utils''"
proof -
  let ?a = "utils_chunk ''assets/utils-aaaa1111.js'' ''/src/a/utils.ts'' ''export const a = 1''"
  let ?b = "utils_chunk ''assets/utils-bbbb2222.js'' ''/src/b/utils.ts'' ''export const b = 2''"
  have occ: "occurrences utils_ab ''utils'' = 2" "occurrences app_v1 ''button'' = 1"
    by code_simp+
  have fields: "name ?a = ''utils''" "name ?b = ''utils''"
    "facadeModuleId ?a = Some ''/src/a/utils.ts''" "facadeModuleId ?b = Some ''/src/b/utils.ts''"
    "name button_v1 = ''button''"
    by (simp_all add: utils_chunk_def button_v1_def)
  have ha: "computeHash ''/src/a/utils.ts:utils'' = ''J_xzEmEc''" by code_simp
  have hb: "computeHash ''/src/b/utils.ts:utils'' = ''SPVSbTzm''" by code_simp
  have bare: "facadeModuleId bare_utils \<in> {None, Some []} \<and> moduleIds bare_utils = Some ([] # [])"
    "name bare_utils = ''utils''"
    by (simp_all add: bare_utils_def)
  from stable_specifier [where chunk = bare_utils and ms = "[]"] bare(1)
  have "hashInputOf bare_utils = name bare_utils" by blast
  with bare(2) have key: "hashInputOf bare_utils = ''utils''" by simp
  from stable_specifier [of utils_ab ?a "''/src/a/utils.ts''"]
    stable_specifier [of utils_ab ?b "''/src/b/utils.ts''"]
    stable_specifier [of app_v1 button_v1]
    occ fields ha hb key
  show ?thesis by simp
qed

section \<open>The order of the emitted table\<close>

lemma set_insertBy: "set (insertBy cmp x ys) = insert x (set ys)"
  by (induction ys) auto

lemma mset_insertBy: "mset (insertBy cmp x ys) = add_mset x (mset ys)"
  by (induction ys) auto

lemma mset_sortBy: "mset (sortBy cmp xs) = mset xs"
  by (induction xs) (simp_all add: sortBy_def mset_insertBy)

lemma set_sortBy: "set (sortBy cmp xs) = set xs"
  using mset_sortBy [of cmp xs] by (metis set_mset_mset)

lemma sorted_insertBy:
  assumes total: "\<And>a b. cmp a b \<le> 0 \<or> cmp b a \<le> 0"
    and trans: "\<And>a b c. cmp a b \<le> 0 \<Longrightarrow> cmp b c \<le> 0 \<Longrightarrow> cmp a c \<le> 0"
  shows "sorted_wrt (\<lambda>a b. cmp a b \<le> 0) ys \<Longrightarrow> sorted_wrt (\<lambda>a b. cmp a b \<le> 0) (insertBy cmp x ys)"
proof (induction ys)
  case Nil
  show ?case by simp
next
  case (Cons y ys)
  show ?case
  proof (cases "cmp x y \<le> 0")
    case True
    have "cmp x z \<le> 0" if "z \<in> set ys" for z
      using Cons.prems that trans [OF True] by auto
    with True Cons.prems show ?thesis by simp
  next
    case False
    with total [of x y] have yx: "cmp y x \<le> 0" by simp
    from Cons.prems have "sorted_wrt (\<lambda>a b. cmp a b \<le> 0) ys" by simp
    from Cons.IH [OF this] yx Cons.prems False show ?thesis
      by (auto simp: set_insertBy)
  qed
qed

lemma sorted_sortBy:
  assumes total: "\<And>a b. cmp a b \<le> 0 \<or> cmp b a \<le> 0"
    and trans: "\<And>a b c. cmp a b \<le> 0 \<Longrightarrow> cmp b c \<le> 0 \<Longrightarrow> cmp a c \<le> 0"
  shows "sorted_wrt (\<lambda>a b. cmp a b \<le> 0) (sortBy cmp xs)"
proof (induction xs)
  case Nil
  show ?case by (simp add: sortBy_def)
next
  case (Cons x xs)
  have "sortBy cmp (x # xs) = insertBy cmp x (sortBy cmp xs)" by (simp add: sortBy_def)
  with sorted_insertBy [of cmp, OF total trans Cons.IH] show ?case by simp
qed

lemma sorted_unique:
  assumes antisym: "\<And>a b. a \<in> set xs \<Longrightarrow> b \<in> set xs \<Longrightarrow> le a b \<Longrightarrow> le b a \<Longrightarrow> a = b"
  shows "sorted_wrt le xs \<Longrightarrow> sorted_wrt le ys \<Longrightarrow> mset xs = mset ys \<Longrightarrow> xs = ys"
  using antisym
proof (induction xs arbitrary: ys)
  case Nil
  then show ?case by simp
next
  case (Cons x xs)
  from Cons.prems(3) obtain y ys' where ys: "ys = y # ys'" by (cases ys) auto
  have sets: "set (x # xs) = set (y # ys')"
    using Cons.prems(3) unfolding ys by (metis set_mset_mset)
  have "x = y"
  proof (rule ccontr)
    assume ne: "x \<noteq> y"
    with sets have "x \<in> set ys'" and "y \<in> set xs" by auto
    with Cons.prems(1,2) have "le y x" and "le x y" by (auto simp: ys)
    moreover have "x \<in> set (x # xs)" "y \<in> set (x # xs)" using \<open>y \<in> set xs\<close> by simp_all
    ultimately have "x = y" using Cons.prems(4) by blast
    with ne show False by contradiction
  qed
  moreover from this Cons.prems(3) have "mset xs = mset ys'" by (simp add: ys)
  moreover from Cons.prems(1,2) have "sorted_wrt le xs" "sorted_wrt le ys'" by (simp_all add: ys)
  ultimately show ?case using Cons.IH [of ys'] Cons.prems(4) by (simp add: ys)
qed

lemma foldl_objSet_fresh:
  "distinct (map fst (acc @ es)) \<Longrightarrow> list_all (\<lambda>k. arrayIndex k = None \<and> k \<noteq> ''__proto__'') (map fst es) \<Longrightarrow>
   foldl (\<lambda>obj e. objSet obj (fst e) (snd e)) acc es = acc @ es"
proof (induction es arbitrary: acc)
  case Nil
  show ?case by simp
next
  case (Cons e es)
  from Cons.prems have fresh: "fst e \<notin> set (map fst acc)" and idx: "arrayIndex (fst e) = None"
    and stored: "fst e \<noteq> ''__proto__''" by auto
  then have step: "objSet acc (fst e) (snd e) = acc @ [e]" by (simp add: objSet_def)
  from Cons.prems have "distinct (map fst ((acc @ [e]) @ es))"
    and "list_all (\<lambda>k. arrayIndex k = None \<and> k \<noteq> ''__proto__'') (map fst es)" by auto
  from Cons.IH [OF this] show ?case by (simp add: step)
qed

text \<open>
  What the hook does get right: with distinct keys, none of them an array index, the
  emitted table is the sorted list of entries, in ascending order of the comparison
  whenever that is total and transitive.
\<close>

lemma transformIndexHtml_sorted:
  assumes "distinct (map fst (importMap p))"
    and "list_all (\<lambda>k. arrayIndex k = None \<and> k \<noteq> ''__proto__'') (map fst (importMap p))"
  shows "importMap (transformIndexHtml cmp p) = sortBy (\<lambda>a b. cmp (fst a) (fst b)) (importMap p)"
proof -
  let ?s = "sortBy (\<lambda>a b. cmp (fst a) (fst b)) (importMap p)"
  have m: "mset (map fst ?s) = mset (map fst (importMap p))"
    by (simp add: mset_sortBy)
  from m assms(1) have d: "distinct (map fst ?s)" by (metis mset_eq_imp_distinct_iff)
  from m have "set (map fst ?s) = set (map fst (importMap p))" by (metis set_mset_mset)
  with assms(2) have "list_all (\<lambda>k. arrayIndex k = None \<and> k \<noteq> ''__proto__'') (map fst ?s)"
    unfolding list_all_iff by simp
  with d have "foldl (\<lambda>obj e. objSet obj (fst e) (snd e)) [] ?s = [] @ ?s"
    by (intro foldl_objSet_fresh) simp_all
  then show ?thesis by (simp add: transformIndexHtml_def Let_def)
qed

lemma emittedKeys_sorted_without_indices:
  assumes "\<And>a b. cmp a b \<le> 0 \<or> cmp b a \<le> 0"
    and "\<And>a b c. cmp a b \<le> 0 \<Longrightarrow> cmp b c \<le> 0 \<Longrightarrow> cmp a c \<le> 0"
    and "distinct (map fst (importMap p))"
    and "list_all (\<lambda>k. arrayIndex k = None \<and> k \<noteq> ''__proto__'') (map fst (importMap p))"
  shows "sorted_wrt (\<lambda>a b. cmp a b \<le> 0) (emittedKeys cmp p)"
proof -
  let ?c = "\<lambda>a b. cmp (fst a) (fst b)"
  have "sorted_wrt (\<lambda>a b. ?c a b \<le> 0) (sortBy ?c (importMap p))"
    by (rule sorted_sortBy [of ?c]) (use assms(1,2) in blast)+
  then have "sorted_wrt (\<lambda>a b. cmp a b \<le> 0) (map fst (sortBy ?c (importMap p)))"
    by (simp add: sorted_wrt_map)
  then show ?thesis
    by (simp add: emittedKeys_def transformIndexHtml_sorted [OF assms(3,4)])
qed

text \<open>
  C6.  The hook sorts the entries, as its comment announces, and then copies them into
  a fresh object; an object enumerates the keys that are array indices first, by
  value, wherever they were inserted, so for such keys the order of the sort is lost.
  With chunks named \<open>9\<close> and \<open>10\<close>, and the code-unit comparison in the place of
  \<open>localeCompare\<close>, the sort puts \<open>10\<close> first, and the table is emitted with \<open>9\<close> before
  \<open>10\<close>, though \<open>10\<close> is the smaller string.
\<close>

theorem numeric_keys_emitted_unsorted:
  "importMap (pluginAfter no_imports (importMapPlugin None) numbered_bundle)
     = [(''9'', ''/assets/9-aaaa1111.js''), (''10'', ''/assets/10-bbbb2222.js'')]
   \<and> sortBy (\<lambda>a b. codeUnitCompare (fst a) (fst b))
        (importMap (pluginAfter no_imports (importMapPlugin None) numbered_bundle))
     = [(''10'', ''/assets/10-bbbb2222.js''), (''9'', ''/assets/9-aaaa1111.js'')]
   \<and> emittedKeys codeUnitCompare (pluginAfter no_imports (importMapPlugin None) numbered_bundle)
     = [''9'', ''10'']
   \<and> codeUnitCompare ''10'' ''9'' < 0"
  by code_simp

section \<open>Rewriting references\<close>

lemma isCandidate_nonempty: "isCandidate p s \<Longrightarrow> s \<noteq> []"
  by (auto simp: isCandidate_def startsWith_def)

lemma unresolved_iff: "visit p node = None \<longleftrightarrow> unresolved p node"
  by (auto simp: visit_def handleImportSource_def unresolved_def literalSpecifier_def
        isCandidate_def startsWith_def Let_def
      split: option.splits source_expr.splits literal_value.splits if_splits)


lemma unresolved_siteNode: "unresolved p (siteNode a s) = unresolved p (siteNode 0 s)"
  by (simp add: unresolved_def literalSpecifier_def siteNode_def)

lemma visit_found:
  assumes "foundIn p s"
  shows "site_stable s \<noteq> None
    \<and> visit p (siteNode a s)
      = Some \<lparr> op_start = a + 1, op_end = a + 1 + length (raw s),
               replacement = the (site_stable s) \<rparr>"
proof -
  from assms obtain v m where e: "site_expr s = Literal (StringValue v)" and m: "site_stable s = Some m"
    and c: "isCandidate p v" and l: "chunkMapping p (lastSegment v) = Some m" and ne: "m \<noteq> []"
    by (auto simp: foundIn_def split: source_expr.splits literal_value.splits option.splits)
  from c have c': "startsWith v ''./'' \<or> startsWith v (''/'' @ resolvedAssetsDir p @ ''/'')
      \<or> startsWith v (''./'' @ resolvedAssetsDir p @ ''/'')"
    by (simp add: isCandidate_def)
  from isCandidate_nonempty [OF c] have v: "v \<noteq> []" .
  have "handleImportSource p
        \<lparr> ntype = ty, source = Some \<lparr> expr = Literal (StringValue v), src_start = a,
                                      src_end = a + length (raw s) + 2 \<rparr> \<rparr>
      = Some \<lparr> op_start = a + 1, op_end = a + 1 + length (raw s), replacement = m \<rparr>" for ty
    using c' v l ne by (auto simp: handleImportSource_def Let_def)
  then show ?thesis by (simp add: visit_def siteNode_def e m)
qed

lemma found_raw: "foundIn p s \<Longrightarrow> raw s \<noteq> []"
  by (auto simp: foundIn_def split: source_expr.splits literal_value.splits option.splits)

lemma visit_kept: "keptIn p s \<Longrightarrow> visit p (siteNode a s) = None"
  by (simp add: keptIn_def unresolved_iff unresolved_siteNode [of p a s])

lemma collect_siteNodes:
  "list_all (\<lambda>s. foundIn p s \<or> keptIn p s) sites \<Longrightarrow>
   collect p (siteNodes off sites) = betweenQuotes off sites"
proof (induction sites arbitrary: off)
  case Nil
  show ?case by simp
next
  case (Cons s ss)
  then have rest: "list_all (\<lambda>s. foundIn p s \<or> keptIn p s) ss" by simp
  from Cons.prems have "foundIn p s \<or> keptIn p s" by simp
  then show ?case
  proof
    assume "foundIn p s"
    from visit_found [OF this, of "off + length (before s)"] Cons.IH [OF rest]
    show ?thesis by (auto simp: add.assoc)
  next
    assume k: "keptIn p s"
    then have "site_stable s = None" by (simp add: keptIn_def)
    with visit_kept [OF k, of "off + length (before s)"] Cons.IH [OF rest]
    show ?thesis by simp
  qed
qed

lemma collect_filter: "collect p nodes = map (\<lambda>n. the (visit p n)) (filter (\<lambda>n. visit p n \<noteq> None) nodes)"
  by (induction nodes) (auto split: option.splits)

lemma mset_collect: "mset xs = mset ys \<Longrightarrow> mset (collect p xs) = mset (collect p ys)"
proof -
  let ?P = "\<lambda>n. visit p n \<noteq> None"
  let ?f = "\<lambda>n. the (visit p n)"
  assume "mset xs = mset ys"
  then have "filter_mset ?P (mset xs) = filter_mset ?P (mset ys)" by (rule arg_cong)
  then have "mset (filter ?P xs) = mset (filter ?P ys)" by (simp only: mset_filter)
  then have "image_mset ?f (mset (filter ?P xs)) = image_mset ?f (mset (filter ?P ys))"
    by (rule arg_cong)
  then have "mset (map ?f (filter ?P xs)) = mset (map ?f (filter ?P ys))"
    by (simp only: mset_map)
  then show ?thesis by (simp only: collect_filter)
qed

lemma collect_unresolved: "list_all (unresolved p) nodes \<Longrightarrow> collect p nodes = []"
  by (induction nodes) (simp_all add: unresolved_iff [symmetric])

lemma betweenQuotes_start: "t \<in> set (betweenQuotes off sites) \<Longrightarrow> off < op_start t"
proof (induction sites arbitrary: off)
  case Nil
  then show ?case by simp
next
  case (Cons s ss)
  from Cons.prems consider "op_start t = off + length (before s) + 1"
    | "t \<in> set (betweenQuotes (off + length (before s) + length (raw s) + 2) ss)"
    by (auto split: option.splits)
  then show ?case
  proof cases
    case 1
    then show ?thesis by simp
  next
    case 2
    from Cons.IH [OF this] show ?thesis by simp
  qed
qed

lemma betweenQuotes_ascending:
  "sorted_wrt (\<lambda>a b. op_start a < op_start b) (betweenQuotes off sites)"
proof (induction sites arbitrary: off)
  case Nil
  show ?case by simp
next
  case (Cons s ss)
  have "off + length (before s) + 1 < op_start t"
    if "t \<in> set (betweenQuotes (off + length (before s) + length (raw s) + 2) ss)" for t
    using betweenQuotes_start [OF that] by simp
  with Cons.IH show ?case by (simp add: sorted_wrt_append split: option.splits)
qed

lemma ascending_inj:
  "sorted_wrt (\<lambda>a b. f a < (f b :: nat)) xs \<Longrightarrow> a \<in> set xs \<Longrightarrow> b \<in> set xs \<Longrightarrow> f a = f b \<Longrightarrow> a = b"
  by (induction xs) fastforce+

lemma sortBy_betweenQuotes:
  assumes "mset xs = mset (betweenQuotes off sites)"
  shows "sortBy byStartDescending xs = rev (betweenQuotes off sites)"
proof (rule sorted_unique [where le = "\<lambda>a b. byStartDescending a b \<le> 0"])
  let ?ops = "betweenQuotes off sites"
  have sets: "set (sortBy byStartDescending xs) = set ?ops"
    using assms by (metis set_sortBy set_mset_mset)
  show "a = b" if "a \<in> set (sortBy byStartDescending xs)" "b \<in> set (sortBy byStartDescending xs)"
    "byStartDescending a b \<le> 0" "byStartDescending b a \<le> 0" for a b
  proof -
    from that(3,4) have "op_start a = op_start b" by (simp add: byStartDescending_def)
    with that(1,2) show ?thesis
      using ascending_inj [OF betweenQuotes_ascending [of off sites], of a b] sets by simp
  qed
  show "sorted_wrt (\<lambda>a b. byStartDescending a b \<le> 0) (sortBy byStartDescending xs)"
    by (rule sorted_sortBy) (auto simp: byStartDescending_def)
  have "sorted_wrt (\<lambda>a b. op_start b < op_start a) (rev ?ops)"
    using betweenQuotes_ascending [of off sites] by (simp add: sorted_wrt_rev)
  then show "sorted_wrt (\<lambda>a b. byStartDescending a b \<le> 0) (rev ?ops)"
    by (rule sorted_wrt_mono_rel [rotated]) (simp add: byStartDescending_def)
  show "mset (sortBy byStartDescending xs) = mset (rev ?ops)"
    by (simp add: mset_sortBy assms)
qed

lemma applyTransforms_append:
  "applyTransforms (xs @ ys) limit s =
     (case applyTransforms xs limit s of
        Inl e \<Rightarrow> Inl e
      | Inr s' \<Rightarrow> applyTransforms ys (if xs = [] then limit else op_start (last xs)) s')"
  by (induction xs arbitrary: limit s) (auto split: sum.splits)

lemma applyTransforms_single:
  "op_start t < op_end t \<Longrightarrow> op_end t \<le> limit \<Longrightarrow>
   applyTransforms [t] limit s = Inr (take (op_start t) s @ replacement t @ drop (op_end t) s)"
  by simp

lemma applyTransforms_layout:
  "list_all (\<lambda>s. site_stable s \<noteq> None \<longrightarrow> raw s \<noteq> []) sites \<Longrightarrow> length pre = off \<Longrightarrow>
   applyTransforms (rev (betweenQuotes off sites)) (length (pre @ originalText sites rest))
       (pre @ originalText sites rest)
     = Inr (pre @ rewrittenText sites rest)"
proof (induction sites arbitrary: pre off)
  case Nil
  show ?case by simp
next
  case (Cons s ss)
  define pre' where "pre' = pre @ before s @ [open_quote s] @ raw s @ [close_quote s]"
  define off' where "off' = off + length (before s) + length (raw s) + 2"
  define c where "c = pre' @ originalText ss rest"
  define tl where "tl = betweenQuotes off' ss"
  define mid where "mid = pre' @ rewrittenText ss rest"
  from Cons.prems have raws: "list_all (\<lambda>s. site_stable s \<noteq> None \<longrightarrow> raw s \<noteq> []) ss" by simp
  have len: "length pre' = off'" using Cons.prems(2) by (simp add: pre'_def off'_def)
  have c: "pre @ originalText (s # ss) rest = c" by (simp add: c_def pre'_def)
  have ih: "applyTransforms (rev tl) (length c) c = Inr mid"
    unfolding c_def tl_def mid_def by (rule Cons.IH [OF raws len])
  show ?case
  proof (cases "site_stable s")
    case None
    then have "rev (betweenQuotes off (s # ss)) = rev tl" by (simp add: tl_def off'_def)
    moreover from None have "pre @ rewrittenText (s # ss) rest = mid" by (simp add: mid_def pre'_def)
    ultimately show ?thesis using ih unfolding c by simp
  next
    case (Some m)
    define t where "t = \<lparr> op_start = off + length (before s) + 1,
                op_end = off + length (before s) + 1 + length (raw s),
                replacement = m \<rparr>"
    define limit where "limit = (if rev tl = [] then length c else op_start (last (rev tl)))"
    from Cons.prems(1) Some have raw: "raw s \<noteq> []" by simp
    have ops: "rev (betweenQuotes off (s # ss)) = rev tl @ [t]"
      by (simp add: tl_def t_def off'_def Some)
    have lim: "off' \<le> limit"
    proof (cases "tl = []")
      case True
      then show ?thesis using len by (simp add: limit_def c_def)
    next
      case False
      then have "last (rev tl) \<in> set tl" by (simp add: last_rev)
      from betweenQuotes_start [OF this [unfolded tl_def]] False
      show ?thesis by (simp add: limit_def tl_def)
    qed
    have t1: "op_start t < op_end t" using raw by (simp add: t_def)
    have t2: "op_end t \<le> limit" using lim by (simp add: t_def off'_def)
    have "applyTransforms (rev (betweenQuotes off (s # ss))) (length c) c
        = applyTransforms [t] limit mid"
      unfolding ops applyTransforms_append ih limit_def by simp
    also have "\<dots> = Inr (take (op_start t) mid @ replacement t @ drop (op_end t) mid)"
      by (rule applyTransforms_single [OF t1 t2])
    also have "take (op_start t) mid = pre @ before s @ [open_quote s]"
      using Cons.prems(2) by (simp add: t_def mid_def pre'_def)
    also have "drop (op_end t) mid = close_quote s # rewrittenText ss rest"
      using Cons.prems(2) by (simp add: t_def mid_def pre'_def)
    finally show ?thesis unfolding c by (simp add: t_def Some)
  qed
qed

text \<open>
  The code of a chunk laid out as sites and rest, every site found or kept, with the
  parser reporting the nodes of the sites, in any order, among nodes that record
  nothing: the transforms applied are those between the quotes of the sites found, and
  the rewritten code is the same layout with their stable specifiers.
\<close>

lemma rewriteCode_layout:
  assumes "parse c = Inr nodes"
    and "c = originalText sites rest"
    and "mset nodes = mset (siteNodes 0 sites) + mset others"
    and "list_all (\<lambda>s. foundIn p s \<or> keptIn p s) sites"
    and "list_all (unresolved p) others"
  shows "rewriteCode parse p c = Inr (rewrittenText sites rest, rev (betweenQuotes 0 sites))"
proof -
  have "collect p others = []" using assms(5) by (rule collect_unresolved)
  moreover from assms(3) have "mset nodes = mset (siteNodes 0 sites @ others)" by simp
  ultimately have "mset (collect p nodes) = mset (betweenQuotes 0 sites)"
    using mset_collect [of nodes "siteNodes 0 sites @ others" p] collect_siteNodes [OF assms(4), of 0]
    by (simp add: collect_append)
  then have sorted: "sortBy byStartDescending (collect p nodes) = rev (betweenQuotes 0 sites)"
    by (rule sortBy_betweenQuotes)
  have "site_stable s \<noteq> None \<longrightarrow> raw s \<noteq> []" if "foundIn p s \<or> keptIn p s" for s
    using that found_raw [of p s] by (auto simp: keptIn_def)
  with assms(4) have "list_all (\<lambda>s. site_stable s \<noteq> None \<longrightarrow> raw s \<noteq> []) sites"
    unfolding list_all_iff by blast
  from applyTransforms_layout [OF this, of "[]" 0 rest]
  have "applyTransforms (rev (betweenQuotes 0 sites)) (length c) c = Inr (rewrittenText sites rest)"
    by (simp add: assms(2))
  with assms(1) sorted show ?thesis by (simp add: rewriteCode_def Let_def)
qed

text \<open>
  C2, as stated, fails for a file name that the mapping has with an empty specifier:
  the lookup tests what it gets for truthiness, and the reference is left as it is.
  The second pass registers a chunk without a base name under the empty specifier, and
  an import of its file, a candidate whose bare file name is in the mapping, comes
  back unchanged.
\<close>

theorem empty_specifier_counterexample:
  "chunkMapping (afterSecondPass (importMapPlugin None) unnamed_bundle) ''x-11aa22bb.js'' = Some []
   \<and> isCandidate (afterSecondPass (importMapPlugin None) unnamed_bundle) ''./x-11aa22bb.js''
   \<and> lastSegment ''./x-11aa22bb.js'' = ''x-11aa22bb.js''
   \<and> rewriteCode app_parser (afterSecondPass (importMapPlugin None) unnamed_bundle)
        ''import x from \"./x-11aa22bb.js\"''
     = Inr (''import x from \"./x-11aa22bb.js\"'', [])"
  by code_simp

text \<open>
  C2, amended.  Let the code of a chunk be laid out as sites and rest, every site found:
  its specifier is a candidate and the mapping gives a stable specifier that is not
  empty for its last segment.  Let the parser report the nodes of these sites, in any
  order, among nodes that are not resolved.  Then the transforms applied are exactly
  those that replace what is strictly between the quotes of each site, and the
  rewritten code is the same layout with the stable specifier between the quotes of
  each site: the quotes, the text before every site and the rest are untouched.  A
  node records nothing exactly when it is not resolved: its source is no literal
  string, or no candidate, or its last segment is not in the mapping or is mapped to
  the empty specifier.  For \<open>import x from "./button-abc123.js"\<close> and the mapping of
  \<open>button-abc123.js\<close> to \<open>button\<close> the result is \<open>import x from "button"\<close>.
\<close>

theorem reference_rewriting:
  assumes "parse c = Inr nodes"
    and "c = originalText sites rest"
    and "mset nodes = mset (siteNodes 0 sites) + mset others"
    and "list_all (foundIn p) sites"
    and "list_all (unresolved p) others"
  shows "rewriteCode parse p c = Inr (rewrittenText sites rest, rev (betweenQuotes 0 sites))
       \<and> list_all (\<lambda>s. site_stable s \<noteq> None) sites
       \<and> (visit p node = None \<longleftrightarrow> unresolved p node)"
proof -
  from assms(4) have all: "list_all (\<lambda>s. foundIn p s \<or> keptIn p s) sites"
    and stable: "list_all (\<lambda>s. site_stable s \<noteq> None) sites"
    unfolding list_all_iff using visit_found by blast+
  from rewriteCode_layout [of parse c nodes sites rest others p, OF assms(1,2,3) all assms(5)]
    stable unresolved_iff [of p node]
  show ?thesis by blast
qed

theorem reference_rewriting_witness:
  "foundIn button_mapping button_site
   \<and> originalText [button_site] [] = ''import x from \"./button-abc123.js\"''
   \<and> rewriteCode app_parser button_mapping ''import x from \"./button-abc123.js\"''
     = Inr (''import x from \"button\"'',
            [\<lparr> op_start = 15, op_end = 33, replacement = ''button'' \<rparr>])"
proof -
  have f: "foundIn button_mapping button_site"
    by (simp add: foundIn_def button_mapping_def button_site_def isCandidate_def startsWith_def
        lastSegment_def importMapPlugin_def)
  have c: "''import x from \"./button-abc123.js\"'' = originalText [button_site] []"
    by (simp add: button_site_def)
  have p: "app_parser ''import x from \"./button-abc123.js\"'' = Inr [import_node ''./button-abc123.js'']"
    by code_simp
  have n: "mset [import_node ''./button-abc123.js''] = mset (siteNodes 0 [button_site]) + mset []"
    by (simp add: import_node_def button_site_def siteNode_def)
  have "rewriteCode app_parser button_mapping ''import x from \"./button-abc123.js\"''
      = Inr (rewrittenText [button_site] [], rev (betweenQuotes 0 [button_site]))"
    using reference_rewriting [where parse = app_parser and others = "[]", OF p c n] f by simp
  moreover have "rewrittenText [button_site] [] = ''import x from \"button\"''"
    and "rev (betweenQuotes 0 [button_site])
      = [\<lparr> op_start = 15, op_end = 33, replacement = ''button'' \<rparr>]"
    by (simp_all add: button_site_def)
  ultimately have "rewriteCode app_parser button_mapping ''import x from \"./button-abc123.js\"''
      = Inr (''import x from \"button\"'',
             [\<lparr> op_start = 15, op_end = 33, replacement = ''button'' \<rparr>])"
    by (simp only:)
  with f c [symmetric] show ?thesis by (intro conjI)
qed

section \<open>Sites that are kept\<close>










section \<open>Committing the renames\<close>

lemma map_of_objDelete: "map_of (objDelete b k) k' = (if k' = k then None else map_of b k')"
  by (induction b) (auto simp: objDelete_def)

lemma keys_objDelete: "set (map fst (objDelete b k)) = set (map fst b) - {k}"
  by (induction b) (auto simp: objDelete_def)

lemma commitRename_skip:
  "map_of b old = None \<or> (\<exists>c. map_of b old = Some c \<and> otype c \<noteq> Chunk) \<Longrightarrow>
   commitRename (old, new) (p, b) = (p, b)"
  by auto

lemma commitRename_bundle:
  "map_of b old = Some c \<Longrightarrow> otype c = Chunk \<Longrightarrow>
   snd (commitRename (old, new) (p, b)) = objSet (objDelete b old) new (c\<lparr>fileName := new\<rparr>)"
  by (simp add: Let_def split: option.splits)

lemma commitRename_plugin:
  "map_of b old = Some c \<Longrightarrow> otype c = Chunk \<Longrightarrow>
   chunkMapping p (filenameOnlyOf old) = Some m \<Longrightarrow> m \<noteq> [] \<Longrightarrow>
   fst (commitRename (old, new) (p, b)) =
     p\<lparr>importMap := objSet (importMap p) m (servedPath p (filenameOnlyOf new)),
       chunkMapping := (chunkMapping p)
         (new \<mapsto> m, filenameOnlyOf new \<mapsto> m, filenameOnlyOf old \<mapsto> m)\<rparr>"
  by (simp add: Let_def)

lemma commitRename_bundle_frame:
  "k \<noteq> old \<Longrightarrow> k \<noteq> new \<Longrightarrow> map_of (snd (commitRename (old, new) (p, b))) k = map_of b k"
  by (auto simp: Let_def map_of_objSet map_of_objDelete split: option.splits)

lemma commitRename_table_frame:
  assumes "chunkMapping p (filenameOnlyOf old) \<noteq> Some m"
  shows "map_of (importMap (fst (commitRename (old, new) (p, b)))) m = map_of (importMap p) m"
    and "chunkMapping (fst (commitRename (old, new) (p, b))) k = Some m \<Longrightarrow> chunkMapping p k = Some m"
  using assms commitRename_cases [of old new p b]
  by (auto simp: map_of_objSet split: if_splits)

declare commitRename.simps [simp del]

lemma fourthPass_bundle_frame:
  "k \<notin> set (map fst rs) \<Longrightarrow> k \<notin> set (map snd rs) \<Longrightarrow>
   map_of (snd (fourthPass rs (p, b))) k = map_of b k"
proof (induction rs arbitrary: p b)
  case Nil
  show ?case by simp
next
  case (Cons r rs)
  obtain old new where r: "r = (old, new)" by (cases r)
  obtain q c where step: "commitRename (old, new) (p, b) = (q, c)"
    by (cases "commitRename (old, new) (p, b)")
  from Cons.prems have "k \<noteq> old" "k \<noteq> new" and rest: "k \<notin> set (map fst rs)" "k \<notin> set (map snd rs)"
    by (auto simp: r)
  then have "map_of c k = map_of b k"
    using commitRename_bundle_frame [of k old new p b] by (simp add: step)
  with Cons.IH [OF rest, of q c] show ?case by (simp add: r step)
qed

lemma fourthPass_table_frame:
  "list_all (\<lambda>r. chunkMapping p (filenameOnlyOf (fst r)) \<noteq> Some m) rs \<Longrightarrow>
   map_of (importMap (fst (fourthPass rs (p, b)))) m = map_of (importMap p) m"
proof (induction rs arbitrary: p b)
  case Nil
  show ?case by simp
next
  case (Cons r rs)
  obtain old new where r: "r = (old, new)" by (cases r)
  obtain q c where step: "commitRename (old, new) (p, b) = (q, c)"
    by (cases "commitRename (old, new) (p, b)")
  from Cons.prems have head: "chunkMapping p (filenameOnlyOf old) \<noteq> Some m"
    and rest: "list_all (\<lambda>r. chunkMapping p (filenameOnlyOf (fst r)) \<noteq> Some m) rs"
    by (simp_all add: r)
  have keep: "map_of (importMap q) m = map_of (importMap p) m"
    using commitRename_table_frame(1) [OF head, of new b] by (simp add: step)
  have "chunkMapping q k = Some m \<Longrightarrow> chunkMapping p k = Some m" for k
    using commitRename_table_frame(2) [OF head, of new b k] by (simp add: step)
  with rest have "list_all (\<lambda>r. chunkMapping q (filenameOnlyOf (fst r)) \<noteq> Some m) rs"
    unfolding list_all_iff by blast
  from Cons.IH [OF this, of c] keep show ?case by (simp add: r step)
qed

lemma grows_servedPath: "grows p q \<Longrightarrow> servedPath q x = servedPath p x"
  by (simp add: grows_def servedPath_def)


lemma in_bundle_keys: "map_of b k = Some c \<Longrightarrow> k \<in> set (map fst b)"
  by (metis map_of_eq_None_iff option.distinct(1) set_map)

lemma stagedCleanly_head:
  assumes "stagedCleanly p b ((old, new) # rs)"
  shows "old \<notin> set (map fst rs)" and "new \<notin> set (map snd rs)" and "new \<notin> set (map fst b)"
    and "\<exists>c. map_of b old = Some c \<and> otype c = Chunk" and "old \<noteq> new"
    and "list_all (\<lambda>r. chunkMapping p (filenameOnlyOf (fst r)) \<noteq> chunkMapping p (filenameOnlyOf old)) rs"
    and "list_all (\<lambda>r. filenameOnlyOf (fst r) \<noteq> new \<and> filenameOnlyOf (fst r) \<noteq> filenameOnlyOf new) rs"
    and "list_all (\<lambda>r. fst r \<noteq> old \<and> fst r \<noteq> new \<and> snd r \<noteq> old \<and> snd r \<noteq> new) rs"
    and "stagedCleanly p b rs"
    and "new \<noteq> ''__proto__''"
proof -
  from assms have d1: "distinct (map fst ((old, new) # rs))" and d2: "distinct (map snd ((old, new) # rs))"
    and js: "list_all (\<lambda>r. endsWith (snd r) ''.js'') ((old, new) # rs)"
    and fresh: "set (map snd ((old, new) # rs)) \<inter> set (map fst b) = {}"
    and chunks: "list_all (\<lambda>r. case map_of b (fst r) of Some c \<Rightarrow> otype c = Chunk | None \<Rightarrow> False)
        ((old, new) # rs)"
    and specs: "distinct (map (\<lambda>r. chunkMapping p (filenameOnlyOf (fst r))) ((old, new) # rs))"
    and bare: "set (map (\<lambda>r. filenameOnlyOf (fst r)) ((old, new) # rs))
         \<inter> (set (map snd ((old, new) # rs)) \<union> set (map (\<lambda>r. filenameOnlyOf (snd r)) ((old, new) # rs))) = {}"
    unfolding stagedCleanly_def by blast+
  show 1: "old \<notin> set (map fst rs)" using d1 by simp
  show 2: "new \<notin> set (map snd rs)" using d2 by simp
  show 3: "new \<notin> set (map fst b)" using fresh by simp
  show 4: "\<exists>c. map_of b old = Some c \<and> otype c = Chunk"
    using chunks by (simp split: option.splits)
  then obtain c0 where "map_of b old = Some c0" by blast
  then have oldkey: "old \<in> set (map fst b)" by (rule in_bundle_keys)
  with 3 show "old \<noteq> new" by blast
  show "list_all (\<lambda>r. chunkMapping p (filenameOnlyOf (fst r)) \<noteq> chunkMapping p (filenameOnlyOf old)) rs"
    using specs unfolding list_all_iff by (auto simp: image_iff)
  show "list_all (\<lambda>r. filenameOnlyOf (fst r) \<noteq> new \<and> filenameOnlyOf (fst r) \<noteq> filenameOnlyOf new) rs"
    using bare unfolding list_all_iff by (auto simp: image_iff)
  have keys: "fst r \<in> set (map fst b)" if "r \<in> set rs" for r
  proof -
    from chunks that have "case map_of b (fst r) of Some c \<Rightarrow> otype c = Chunk | None \<Rightarrow> False"
      unfolding list_all_iff by simp
    then obtain c where "map_of b (fst r) = Some c" by (cases "map_of b (fst r)") simp_all
    then show ?thesis by (rule in_bundle_keys)
  qed
  have news: "snd r \<notin> set (map fst b)" if "r \<in> set rs" for r
    using fresh that by (auto simp: image_iff)
  show "list_all (\<lambda>r. fst r \<noteq> old \<and> fst r \<noteq> new \<and> snd r \<noteq> old \<and> snd r \<noteq> new) rs"
    unfolding list_all_iff
  proof (intro ballI conjI)
    fix r assume r: "r \<in> set rs"
    show "fst r \<noteq> old" using 1 r by (auto simp: image_iff)
    show "fst r \<noteq> new" using keys [OF r] 3 by auto
    show "snd r \<noteq> old" using news [OF r] oldkey by auto
    show "snd r \<noteq> new" using 2 r by (auto simp: image_iff)
  qed
  show "stagedCleanly p b rs"
    using d1 d2 js fresh chunks specs bare unfolding stagedCleanly_def by auto
  from js show "new \<noteq> ''__proto__''" by (auto simp: endsWith_def)
qed


lemma stagedCleanly_step:
  assumes sc: "stagedCleanly p b ((old, new) # rs)"
    and step: "commitRename (old, new) (p, b) = (q, b1)"
  shows "stagedCleanly q b1 rs"
    and "list_all (\<lambda>r. map_of b1 (fst r) = map_of b (fst r)
           \<and> chunkMapping q (filenameOnlyOf (fst r)) = chunkMapping p (filenameOnlyOf (fst r))) rs"
    and "grows p q"
proof -
  note h = stagedCleanly_head [OF sc]
  from h(4) obtain c where c: "map_of b old = Some c" "otype c = Chunk" by blast
  have b1: "b1 = objSet (objDelete b old) new (c\<lparr>fileName := new\<rparr>)"
    using commitRename_bundle [OF c, of new p] step by simp
  have keys1: "set (map fst b1) = insert new (set (map fst b) - {old})"
    using h(10) by (simp only: b1 keys_objSet keys_objDelete if_False)
  show g: "grows p q" using commitRename_grows [of p "(old, new)" b] step by simp
  have bun: "map_of b1 (fst r) = map_of b (fst r)" if "r \<in> set rs" for r
  proof -
    from h(8) that have "fst r \<noteq> old" "fst r \<noteq> new" unfolding list_all_iff by auto
    from commitRename_bundle_frame [OF this, of p b] step show ?thesis by simp
  qed
  have mp: "chunkMapping q (filenameOnlyOf (fst r)) = chunkMapping p (filenameOnlyOf (fst r))"
    if "r \<in> set rs" for r
  proof -
    from h(7) that have ne: "filenameOnlyOf (fst r) \<noteq> new"
      "filenameOnlyOf (fst r) \<noteq> filenameOnlyOf new" unfolding list_all_iff by auto
    from commitRename_cases [of old new p b] step
    consider "q = p"
      | m where "chunkMapping p (filenameOnlyOf old) = Some m"
        "q = p\<lparr>importMap := objSet (importMap p) m (servedPath p (filenameOnlyOf new)),
              chunkMapping := (chunkMapping p)
                (new \<mapsto> m, filenameOnlyOf new \<mapsto> m, filenameOnlyOf old \<mapsto> m)\<rparr>"
      by auto
    then show ?thesis
    proof cases
      case 1
      then show ?thesis by simp
    next
      case 2
      then show ?thesis using ne by auto
    qed
  qed
  show "list_all (\<lambda>r. map_of b1 (fst r) = map_of b (fst r)
           \<and> chunkMapping q (filenameOnlyOf (fst r)) = chunkMapping p (filenameOnlyOf (fst r))) rs"
    unfolding list_all_iff using bun mp by blast
  from h(9) have d1: "distinct (map fst rs)" and d2: "distinct (map snd rs)"
    and js: "list_all (\<lambda>r. endsWith (snd r) ''.js'') rs"
    and fresh: "set (map snd rs) \<inter> set (map fst b) = {}"
    and chunks: "list_all (\<lambda>r. case map_of b (fst r) of Some c \<Rightarrow> otype c = Chunk | None \<Rightarrow> False) rs"
    and specs: "distinct (map (\<lambda>r. chunkMapping p (filenameOnlyOf (fst r))) rs)"
    and bare: "set (map (\<lambda>r. filenameOnlyOf (fst r)) rs)
         \<inter> (set (map snd rs) \<union> set (map (\<lambda>r. filenameOnlyOf (snd r)) rs)) = {}"
    unfolding stagedCleanly_def by blast+
  have fresh1: "set (map snd rs) \<inter> set (map fst b1) = {}"
    using fresh h(2) unfolding keys1 by auto
  have chunks1: "list_all (\<lambda>r. case map_of b1 (fst r) of Some c \<Rightarrow> otype c = Chunk | None \<Rightarrow> False) rs"
    using chunks bun unfolding list_all_iff by simp
  have "map (\<lambda>r. chunkMapping q (filenameOnlyOf (fst r))) rs
      = map (\<lambda>r. chunkMapping p (filenameOnlyOf (fst r))) rs"
    by (rule map_cong) (simp_all add: mp)
  with specs have specs1: "distinct (map (\<lambda>r. chunkMapping q (filenameOnlyOf (fst r))) rs)"
    by (simp only:)
  show "stagedCleanly q b1 rs"
    unfolding stagedCleanly_def using d1 d2 js fresh1 chunks1 specs1 bare by blast
qed

lemma rename_commit_general:
  assumes "stagedCleanly p b rs" and "(old, new) \<in> set rs" and "map_of b old = Some c"
  shows "map_of (snd (fourthPass rs (p, b))) new = Some (c\<lparr>fileName := new\<rparr>)
       \<and> map_of (snd (fourthPass rs (p, b))) old = None
       \<and> (chunkMapping p (filenameOnlyOf old) = Some m \<and> m \<noteq> [] \<and> m \<noteq> ''__proto__'' \<longrightarrow>
            map_of (importMap (fst (fourthPass rs (p, b)))) m
              = Some (servedPath p (filenameOnlyOf new)))"
  using assms
proof (induction rs arbitrary: p b)
  case Nil
  then show ?case by simp
next
  case (Cons r rs)
  obtain old0 new0 where r: "r = (old0, new0)" by (cases r)
  obtain q b1 where step: "commitRename (old0, new0) (p, b) = (q, b1)"
    by (cases "commitRename (old0, new0) (p, b)")
  from Cons.prems(1) have sc: "stagedCleanly p b ((old0, new0) # rs)" by (simp add: r)
  note h = stagedCleanly_head [OF sc]
  note s = stagedCleanly_step [OF sc step]
  have run: "fourthPass (r # rs) (p, b) = fourthPass rs (q, b1)" by (simp add: r step)
  show ?case
  proof (cases "(old, new) = (old0, new0)")
    case True
    then have on: "old0 = old" "new0 = new" by simp_all
    from Cons.prems(3) h(4) have c: "map_of b old = Some c" "otype c = Chunk" by (auto simp: on)
    have b1: "b1 = objSet (objDelete b old) new (c\<lparr>fileName := new\<rparr>)"
      using commitRename_bundle [OF c, of new p] step by (simp add: on)
    from h(1,2,8) have out: "new \<notin> set (map fst rs)" "new \<notin> set (map snd rs)"
      "old \<notin> set (map fst rs)" "old \<notin> set (map snd rs)"
      unfolding list_all_iff on by (auto simp: image_iff)
    have "map_of (snd (fourthPass rs (q, b1))) new = map_of b1 new"
      by (rule fourthPass_bundle_frame [OF out(1,2)])
    then have part1: "map_of (snd (fourthPass rs (q, b1))) new = Some (c\<lparr>fileName := new\<rparr>)"
      using h(10) by (simp add: b1 map_of_objSet on)
    have "map_of (snd (fourthPass rs (q, b1))) old = map_of b1 old"
      by (rule fourthPass_bundle_frame [OF out(3,4)])
    then have part2: "map_of (snd (fourthPass rs (q, b1))) old = None"
      using h(5) by (simp add: b1 map_of_objSet map_of_objDelete on)
    have part3: "map_of (importMap (fst (fourthPass rs (q, b1)))) m
        = Some (servedPath p (filenameOnlyOf new))"
      if m: "chunkMapping p (filenameOnlyOf old) = Some m" "m \<noteq> []" "m \<noteq> ''__proto__''"
    proof -
      have q: "q = p\<lparr>importMap := objSet (importMap p) m (servedPath p (filenameOnlyOf new)),
              chunkMapping := (chunkMapping p)
                (new \<mapsto> m, filenameOnlyOf new \<mapsto> m, filenameOnlyOf old \<mapsto> m)\<rparr>"
        using commitRename_plugin [OF c m(1,2), of new] step by (simp add: on)
      have "list_all (\<lambda>r. chunkMapping q (filenameOnlyOf (fst r)) \<noteq> Some m) rs"
        using h(6) s(2) m(1) unfolding list_all_iff on by auto
      from fourthPass_table_frame [OF this, of b1]
      show ?thesis using m(3) by (simp add: q map_of_objSet)
    qed
    from part1 part2 part3 show ?thesis unfolding run by blast
  next
    case False
    with Cons.prems(2) have mem: "(old, new) \<in> set rs" by (auto simp: r)
    with s(2) have same: "map_of b1 old = map_of b old"
      "chunkMapping q (filenameOnlyOf old) = chunkMapping p (filenameOnlyOf old)"
      unfolding list_all_iff by auto
    from Cons.prems(3) same have c1: "map_of b1 old = Some c" by simp
    from Cons.IH [OF s(1) mem c1] same(2) grows_servedPath [OF s(3)]
    show ?thesis unfolding run by simp
  qed
qed


text \<open>
  C5, as stated, fails, in three ways.  For a chunk without a base name the new file
  name is the old bare file name, so the rename staged for it leads to its own path;
  the fourth pass removes the entry and inserts it again, and the collection still has
  the chunk under the old name.  When two chunks have the same bare file name, in
  different directories, the mapping resolves that name to the specifier of the later
  one, and the rename of the first updates the table entry of the second: the entry of
  \<open>pageA\<close> keeps the old file name.  And for a chunk whose specifier is \<open>__proto__\<close>
  the table gets no entry at all.
\<close>

theorem rename_to_same_name_counterexample:
  "stagedRenames app_parser (importMapPlugin None) unnamed_bundle
     = Some [(''assets/x-11aa22bb.js'', ''assets/x-11aa22bb.js'')]
   \<and> bundleAfter app_parser (importMapPlugin None) unnamed_bundle
     = Some [(''assets/button-abc123.js'', button_v1),
             (''assets/x-11aa22bb.js'', unnamed_chunk\<lparr>code := ''import x from \"button\"''\<rparr>)]
   \<and> stagedRenames app_parser (importMapPlugin None) pages_bundle
     = Some [(''a/index.js'', ''a/pageA-tfL_2xSU.js'')]
   \<and> importMap (pluginAfter app_parser (importMapPlugin None) pages_bundle)
     = [(''pageA'', ''/assets/index.js''), (''pageB'', ''/assets/pageA-tfL_2xSU.js''),
        (''button'', ''/assets/button-abc123.js'')]
   \<and> stagedRenames app_parser (importMapPlugin None) proto_bundle
     = Some [(''assets/__proto__-11aa22bb.js'', ''assets/__proto__-tfL_2xSU.js'')]
   \<and> importMap (pluginAfter app_parser (importMapPlugin None) proto_bundle)
     = [(''button'', ''/assets/button-abc123.js'')]"
  by code_simp

text \<open>
  C5, amended.  When the renames are staged without a clash, then after the fourth pass
  every staged rename has its chunk under the new name, with \<open>fileName\<close> set to it, and
  nothing under the old name.  When moreover the mapping resolves the old bare file
  name to the stable specifier of that chunk, the one the second pass computes from its
  name and identity, and this specifier is neither empty nor \<open>__proto__\<close>, the table
  entry of the specifier is the path prefix (\<open>/\<close> with \<open>useAbsolutePaths\<close>, \<open>./\<close>
  without), the assets directory, a slash and the new bare file name.  Every alias the
  mapping had is still in it.
\<close>

theorem rename_commit:
  assumes "stagedCleanly p b rs" and "(old, new) \<in> set rs" and "map_of b old = Some c"
    and "fourthPass rs (p, b) = (p', b')"
  shows "map_of b' new = Some (c\<lparr>fileName := new\<rparr>) \<and> map_of b' old = None
       \<and> (chunkMapping p (filenameOnlyOf old) = Some (moduleSpecOf (baseNameCounts p) c)
            \<and> moduleSpecOf (baseNameCounts p) c \<noteq> []
            \<and> moduleSpecOf (baseNameCounts p) c \<noteq> ''__proto__'' \<longrightarrow>
            map_of (importMap p') (moduleSpecOf (baseNameCounts p) c)
              = Some ((if useAbsolutePaths p then ''/'' else ''./'') @ resolvedAssetsDir p
                      @ ''/'' @ filenameOnlyOf new))
       \<and> dom (chunkMapping p) \<subseteq> dom (chunkMapping p')"
proof -
  from fourthPass_grows [of p rs b] assms(4) have "dom (chunkMapping p) \<subseteq> dom (chunkMapping p')"
    by (simp add: grows_def)
  moreover have "servedPath p (filenameOnlyOf new)
      = (if useAbsolutePaths p then ''/'' else ''./'') @ resolvedAssetsDir p @ ''/'' @ filenameOnlyOf new"
    by (simp add: servedPath_def Let_def)
  ultimately show ?thesis
    using rename_commit_general [OF assms(1,2,3), of "moduleSpecOf (baseNameCounts p) c"] assms(4)
    by (simp only: fst_conv snd_conv) blast
qed

theorem rename_commit_witness:
  "stagedRenames app_parser (importMapPlugin None) app_v1 = Some app_v1_renames
   \<and> stagedCleanly (afterSecondPass (importMapPlugin None) app_v1) app_v1_rewritten app_v1_renames
   \<and> moduleSpecOf (baseNameCounts (afterSecondPass (importMapPlugin None) app_v1))
        (main_v1\<lparr>code := ''import x from \"button\"''\<rparr>) = ''main''
   \<and> map_of (snd (fourthPass app_v1_renames
          (afterSecondPass (importMapPlugin None) app_v1, app_v1_rewritten)))
        ''assets/main-tfL_2xSU.js''
     = Some (main_v1\<lparr>code := ''import x from \"button\"'', fileName := ''assets/main-tfL_2xSU.js''\<rparr>)
   \<and> map_of (snd (fourthPass app_v1_renames
          (afterSecondPass (importMapPlugin None) app_v1, app_v1_rewritten)))
        ''assets/main-11111111.js''
     = None
   \<and> map_of (importMap (fst (fourthPass app_v1_renames
          (afterSecondPass (importMapPlugin None) app_v1, app_v1_rewritten))))
        ''main''
     = Some ''/assets/main-tfL_2xSU.js''"
proof -
  let ?p = "afterSecondPass (importMapPlugin None) app_v1"
  let ?c = "main_v1\<lparr>code := ''import x from \"button\"''\<rparr>"
  let ?st = "fourthPass app_v1_renames (?p, app_v1_rewritten)"
  have staged: "stagedRenames app_parser (importMapPlugin None) app_v1 = Some app_v1_renames"
    by code_simp
  have clean: "stagedCleanly ?p app_v1_rewritten app_v1_renames" by code_simp
  have mem: "(''assets/main-11111111.js'', ''assets/main-tfL_2xSU.js'') \<in> set app_v1_renames"
    by (simp add: app_v1_renames_def)
  have chunk: "map_of app_v1_rewritten ''assets/main-11111111.js'' = Some ?c"
    by (simp add: app_v1_rewritten_def)
  have run: "?st = (fst ?st, snd ?st)" by simp
  have own: "moduleSpecOf (baseNameCounts ?p) ?c = ''main''" by code_simp
  have spec: "chunkMapping ?p (filenameOnlyOf ''assets/main-11111111.js'') = Some ''main''"
    by code_simp
  have path: "(if useAbsolutePaths ?p then ''/'' else ''./'') @ resolvedAssetsDir ?p
      @ ''/'' @ filenameOnlyOf ''assets/main-tfL_2xSU.js'' = ''/assets/main-tfL_2xSU.js''"
    by code_simp
  from rename_commit [OF clean mem chunk run] own spec path staged clean
  show ?thesis by simp
qed

section \<open>Chunks without a rewritten reference\<close>

text \<open>
  A chunk whose code records no transform is skipped by the third pass: it stays in the
  bundle as it is, code, file name and source map, and no rename is staged under its
  name.
\<close>

lemma thirdPass_keeps:
  "thirdPass parse p b = Inr (b3, rs) \<Longrightarrow> (fname, chunk) \<in> set b \<Longrightarrow>
   transformChunk parse p fname chunk = Inr (chunk, None) \<Longrightarrow> (fname, chunk) \<in> set b3"
proof (induction b arbitrary: b3 rs)
  case Nil
  then show ?case by simp
next
  case (Cons e es)
  obtain f c where e: "e = (f, c)" by (cases e)
  from Cons.prems(1) obtain c' st es' rs' where
    t: "transformChunk parse p f c = Inr (c', st)" and r: "thirdPass parse p es = Inr (es', rs')"
    and b3: "b3 = (f, c') # es'"
    by (auto simp: e split: sum.splits)
  show ?case
  proof (cases "(fname, chunk) = (f, c)")
    case True
    with t Cons.prems(3) b3 show ?thesis by simp
  next
    case False
    with Cons.prems(2) have "(fname, chunk) \<in> set es" by (auto simp: e)
    from Cons.IH [OF r this Cons.prems(3)] b3 show ?thesis by simp
  qed
qed

lemma thirdPass_staged:
  "thirdPass parse p b = Inr (b3, rs) \<Longrightarrow> (old, new) \<in> set rs \<Longrightarrow>
   \<exists>c c'. (old, c) \<in> set b \<and> transformChunk parse p old c = Inr (c', Some new)"
proof (induction b arbitrary: b3 rs)
  case Nil
  then show ?case by simp
next
  case (Cons e es)
  obtain f c where e: "e = (f, c)" by (cases e)
  from Cons.prems(1) obtain c' st es' rs' where
    t: "transformChunk parse p f c = Inr (c', st)" and r: "thirdPass parse p es = Inr (es', rs')"
    and rs: "rs = (case st of None \<Rightarrow> rs' | Some path \<Rightarrow> (f, path) # rs')"
    by (auto simp: e split: sum.splits)
  show ?case
  proof (cases "(old, new) \<in> set rs'")
    case True
    from Cons.IH [OF r True] show ?thesis by auto
  next
    case False
    with Cons.prems(2) rs have "st = Some new" "old = f" by (auto split: option.splits)
    with t show ?thesis by (auto simp: e)
  qed
qed

lemma untransformed_chunk_skipped:
  assumes "thirdPass parse p b = Inr (b3, rs)" and "distinct (map fst b)"
    and "(fname, chunk) \<in> set b" and "parse (code chunk) = Inr nodes" and "collect p nodes = []"
  shows "transformChunk parse p fname chunk = Inr (chunk, None)"
    and "(fname, chunk) \<in> set b3" and "fname \<notin> set (map fst rs)"
proof -
  show skip: "transformChunk parse p fname chunk = Inr (chunk, None)"
    by (rule transformChunk_no_ops [OF rewriteCode_no_ops [of parse "code chunk" nodes p, OF assms(4,5)]])
  show "(fname, chunk) \<in> set b3" by (rule thirdPass_keeps [OF assms(1,3) skip])
  show "fname \<notin> set (map fst rs)"
  proof
    assume "fname \<in> set (map fst rs)"
    then obtain new where "(fname, new) \<in> set rs" by auto
    from thirdPass_staged [OF assms(1) this] obtain c c' where
      c: "(fname, c) \<in> set b" "transformChunk parse p fname c = Inr (c', Some new)" by blast
    from assms(2,3) c(1) have "c = chunk" by (meson eq_key_imp_eq_value)
    with c(2) skip show False by simp
  qed
qed

text \<open>
  C10.  The skip holds, but the table entry of a skipped chunk can still be rewritten,
  because the fourth pass looks the specifier of a renamed chunk up by its bare file
  name, though the second pass registered the full path as well.  Of two pages whose
  files are both called \<open>index.js\<close>, \<open>pageB\<close> records no transform and is skipped, with
  its entry at \<open>/assets/index.js\<close> after the second pass; \<open>pageA\<close> is renamed, the
  bare name \<open>index.js\<close> resolves to \<open>pageB\<close>, and the entry of \<open>pageB\<close> ends at the
  new file of \<open>pageA\<close>.
\<close>

theorem unrewritten_entry_overwritten:
  "rewriteCode app_parser (afterSecondPass (importMapPlugin None) pages_bundle)
       (code (snd (pages_bundle ! 1)))
     = Inr (code (snd (pages_bundle ! 1)), [])
   \<and> stagedRenames app_parser (importMapPlugin None) pages_bundle
     = Some [(''a/index.js'', ''a/pageA-tfL_2xSU.js'')]
   \<and> map_of (importMap (afterSecondPass (importMapPlugin None) pages_bundle)) ''pageB''
     = Some ''/assets/index.js''
   \<and> map_of (importMap (pluginAfter app_parser (importMapPlugin None) pages_bundle)) ''pageB''
     = Some ''/assets/pageA-tfL_2xSU.js''
   \<and> map_of (the (bundleAfter app_parser (importMapPlugin None) pages_bundle)) ''b/index.js''
     = Some (snd (pages_bundle ! 1))"
  by code_simp

section \<open>References to chunks of the bundle\<close>

lemma secondPass_counts: "baseNameCounts (secondPass es p) = baseNameCounts p"
  using secondPass_grows [of p es] by (simp add: grows_def)

lemma secondPass_assetsDir: "resolvedAssetsDir (secondPass es p) = resolvedAssetsDir p"
  using secondPass_grows [of p es] by (simp add: grows_def)

lemma isCandidate_afterSecondPass: "isCandidate (afterSecondPass p b) v = isCandidate p v"
  by (simp add: isCandidate_def afterSecondPass_def secondPass_assetsDir)

lemma secondPass_range:
  "chunkMapping (secondPass es p) k = chunkMapping p k
   \<or> (\<exists>e\<in>set es. isScript (fst e) (snd e) \<and> k \<in> set (aliasesOf e)
         \<and> chunkMapping (secondPass es p) k = Some (moduleSpecOf (baseNameCounts p) (snd e)))"
proof (induction es arbitrary: p)
  case Nil
  show ?case by simp
next
  case (Cons e es)
  obtain f c where e: "e = (f, c)" by (cases e)
  show ?case
  proof (cases "isScript f c")
    case False
    with Cons.IH [of p] show ?thesis by (auto simp: e)
  next
    case True
    let ?m = "moduleSpecOf (baseNameCounts p) c"
    let ?q = "p\<lparr>chunkMapping := (chunkMapping p)(f \<mapsto> ?m, filenameOnlyOf f \<mapsto> ?m, name c \<mapsto> ?m),
               importMap := objSet (importMap p) ?m (servedPath p (filenameOnlyOf f))\<rparr>"
    have step: "secondPass (e # es) p = secondPass es ?q" using True by (simp add: e Let_def)
    have counts: "baseNameCounts ?q = baseNameCounts p" by simp
    from Cons.IH [of ?q] consider "chunkMapping (secondPass es ?q) k = chunkMapping ?q k"
      | e' where "e' \<in> set es" "isScript (fst e') (snd e')" "k \<in> set (aliasesOf e')"
        "chunkMapping (secondPass es ?q) k = Some (moduleSpecOf (baseNameCounts p) (snd e'))"
      unfolding counts by blast
    then show ?thesis
    proof cases
      case 1
      show ?thesis
      proof (cases "k \<in> set (aliasesOf e)")
        case known: True
        then have "chunkMapping ?q k = Some ?m" by (auto simp: aliasesOf_def e)
        with 1 known True show ?thesis unfolding step by (auto simp: e)
      next
        case False
        then have "chunkMapping ?q k = chunkMapping p k" by (auto simp: aliasesOf_def e)
        with 1 show ?thesis unfolding step by simp
      qed
    next
      case 2
      then show ?thesis unfolding step by auto
    qed
  qed
qed

lemma secondPass_registered:
  "(f, chunk) \<in> set es \<Longrightarrow> isScript f chunk \<Longrightarrow>
   \<exists>e\<in>set es. isScript (fst e) (snd e) \<and> filenameOnlyOf f \<in> set (aliasesOf e)
     \<and> chunkMapping (secondPass es p) (filenameOnlyOf f)
         = Some (moduleSpecOf (baseNameCounts p) (snd e))"
proof (induction es arbitrary: p)
  case Nil
  then show ?case by simp
next
  case (Cons e es)
  obtain g c where e: "e = (g, c)" by (cases e)
  let ?k = "filenameOnlyOf f"
  let ?m = "moduleSpecOf (baseNameCounts p) c"
  let ?q = "p\<lparr>chunkMapping := (chunkMapping p)(g \<mapsto> ?m, filenameOnlyOf g \<mapsto> ?m, name c \<mapsto> ?m),
             importMap := objSet (importMap p) ?m (servedPath p (filenameOnlyOf g))\<rparr>"
  show ?case
  proof (cases "(f, chunk) = (g, c)")
    case True
    then have s: "isScript g c" using Cons.prems(2) by simp
    have step: "secondPass (e # es) p = secondPass es ?q" using s by (simp add: e Let_def)
    have q: "chunkMapping ?q ?k = Some ?m" using True by auto
    have al: "?k \<in> set (aliasesOf e)" using True by (simp add: aliasesOf_def e)
    from secondPass_range [of es ?q ?k] show ?thesis
      unfolding step using q al s by (auto simp: e)
  next
    case False
    with Cons.prems(1) have mem: "(f, chunk) \<in> set es" by (auto simp: e)
    show ?thesis
    proof (cases "isScript g c")
      case True
      then have step: "secondPass (e # es) p = secondPass es ?q" by (simp add: e Let_def)
      from Cons.IH [OF mem Cons.prems(2), of ?q] show ?thesis unfolding step by auto
    next
      case False
      then have step: "secondPass (e # es) p = secondPass es p" by (simp add: e)
      from Cons.IH [OF mem Cons.prems(2), of p] show ?thesis unfolding step by auto
    qed
  qed
qed

lemma moduleSpecOf_nonempty: "name c \<noteq> [] \<Longrightarrow> moduleSpecOf counts c \<noteq> []"
  by (simp add: moduleSpecOf_def Let_def)

lemma sole_alias_registered:
  assumes "(f, chunk) \<in> set b" and "isScript f chunk"
    and "list_all (\<lambda>e. isScript (fst e) (snd e) \<and> filenameOnlyOf f \<in> set (aliasesOf e) \<longrightarrow> e = (f, chunk)) b"
  shows "chunkMapping (afterSecondPass p b) (filenameOnlyOf f)
      = Some (moduleSpecOf (countBaseNames b (baseNameCounts p)) chunk)"
proof -
  let ?p1 = "p\<lparr>baseNameCounts := countBaseNames b (baseNameCounts p)\<rparr>"
  from secondPass_registered [OF assms(1,2), of ?p1] obtain e where
    e: "e \<in> set b" "isScript (fst e) (snd e)" "filenameOnlyOf f \<in> set (aliasesOf e)"
      "chunkMapping (secondPass b ?p1) (filenameOnlyOf f) = Some (moduleSpecOf (baseNameCounts ?p1) (snd e))"
    by blast
  from assms(3) e(1,2,3) have "e = (f, chunk)" unfolding list_all_iff by blast
  with e(4) show ?thesis by (simp add: afterSecondPass_def)
qed


text \<open>
  C4, as stated, fails.  A reference that is no candidate is never looked up: a chunk in
  a subdirectory imports \<open>../button-abc123.js\<close>, and keeps that import, the hashed file
  name of \<open>button\<close> in it.  A reference to the file of a chunk without a base name
  finds the empty specifier and is kept too.  And the lookup goes by bare file name:
  the helper beside \<open>a/index.js\<close> imports \<open>./index.js\<close> and gets the specifier of
  \<open>pageB\<close>, whose file \<open>b/index.js\<close> was registered later, not that of \<open>pageA\<close>.
\<close>

theorem unrewritten_reference_counterexample:
  "bundleAfter app_parser (importMapPlugin None) nested_bundle = Some nested_bundle
   \<and> app_parser (code (snd (hd nested_bundle))) = Inr [import_node ''../button-abc123.js'']
   \<and> lastSegment ''../button-abc123.js'' = filenameOnlyOf ''assets/button-abc123.js''
   \<and> bundleAfter app_parser (importMapPlugin None) orphan_bundle = Some orphan_bundle
   \<and> bundleAfter app_parser (importMapPlugin None) helper_bundle
     = Some [(''a/index.js'', page_chunk ''a/index.js'' ''pageA'' ''export const a = 1''),
             (''b/index.js'', page_chunk ''b/index.js'' ''pageB'' ''export const b = 2''),
             (''a/helper-PTyO9yB9.js'',
              page_chunk ''a/helper-PTyO9yB9.js'' ''helper'' ''import x from \"pageB\"'')]"
  by code_simp

text \<open>
  C4, amended.  Take a script chunk of the bundle with a base name, the only script
  chunk that has its bare file name as file name, bare file name or base name.  After
  the second pass the mapping resolves that bare file name to the stable specifier of
  the chunk, which is not empty; every node whose source is a literal candidate
  specifier with that bare file name as last segment records the transform that puts
  the stable specifier between its quotes; and in the rewritten code of any chunk, laid
  out as sites and rest, each such site carries the stable specifier.  A node whose
  literal specifier is no candidate records nothing.
\<close>

theorem internal_references_rewritten:
  assumes "(f, chunk) \<in> set b" and "isScript f chunk" and "name chunk \<noteq> []"
    and "list_all (\<lambda>e. isScript (fst e) (snd e) \<and> filenameOnlyOf f \<in> set (aliasesOf e)
                      \<longrightarrow> e = (f, chunk)) b"
    and "isCandidate p v" and "lastSegment v = filenameOnlyOf f"
  shows "chunkMapping (afterSecondPass p b) (lastSegment v)
           = Some (moduleSpecOf (countBaseNames b (baseNameCounts p)) chunk)
       \<and> moduleSpecOf (countBaseNames b (baseNameCounts p)) chunk \<noteq> []
       \<and> (source node = Some src \<and> expr src = Literal (StringValue v) \<longrightarrow>
            visit (afterSecondPass p b) node
              = Some \<lparr> op_start = src_start src + 1, op_end = src_end src - 1,
                       replacement = moduleSpecOf (countBaseNames b (baseNameCounts p)) chunk \<rparr>)
       \<and> (parse c = Inr nodes \<and> c = originalText sites rest
            \<and> mset nodes = mset (siteNodes 0 sites) + mset others
            \<and> list_all (\<lambda>s. foundIn (afterSecondPass p b) s \<or> keptIn (afterSecondPass p b) s) sites
            \<and> list_all (unresolved (afterSecondPass p b)) others \<longrightarrow>
            rewriteCode parse (afterSecondPass p b) c
              = Inr (rewrittenText sites rest, rev (betweenQuotes 0 sites))
            \<and> list_all (\<lambda>s. site_expr s = Literal (StringValue v) \<longrightarrow>
                  site_stable s = Some (moduleSpecOf (countBaseNames b (baseNameCounts p)) chunk))
                sites)
       \<and> (literalSpecifier node' = Some v' \<and> \<not> isCandidate p v' \<longrightarrow>
            visit (afterSecondPass p b) node' = None)"
proof -
  let ?p2 = "afterSecondPass p b"
  let ?m = "moduleSpecOf (countBaseNames b (baseNameCounts p)) chunk"
  have reg: "chunkMapping ?p2 (lastSegment v) = Some ?m"
    unfolding assms(6) by (rule sole_alias_registered [OF assms(1,2,4)])
  have ne: "?m \<noteq> []" by (rule moduleSpecOf_nonempty [OF assms(3)])
  have cand: "isCandidate ?p2 v" using assms(5) by (simp add: isCandidate_afterSecondPass)
  from cand have cand': "startsWith v ''./'' \<or> startsWith v (''/'' @ resolvedAssetsDir ?p2 @ ''/'')
      \<or> startsWith v (''./'' @ resolvedAssetsDir ?p2 @ ''/'')"
    by (simp add: isCandidate_def)
  have vis: "visit ?p2 node
      = Some \<lparr> op_start = src_start src + 1, op_end = src_end src - 1, replacement = ?m \<rparr>"
    if "source node = Some src" "expr src = Literal (StringValue v)"
  proof -
    have "handleImportSource ?p2 node
        = Some \<lparr> op_start = src_start src + 1, op_end = src_end src - 1, replacement = ?m \<rparr>"
      using that cand' isCandidate_nonempty [OF cand] reg ne
      by (auto simp: handleImportSource_def Let_def)
    then show ?thesis using that by (simp add: visit_def)
  qed
  have site: "site_stable s = Some ?m"
    if "foundIn ?p2 s \<or> keptIn ?p2 s" "site_expr s = Literal (StringValue v)" for s
    using that cand reg ne
    by (auto simp: foundIn_def keptIn_def unresolved_def literalSpecifier_def siteNode_def
        split: option.splits)
  have layout: "rewriteCode parse ?p2 c = Inr (rewrittenText sites rest, rev (betweenQuotes 0 sites))
      \<and> list_all (\<lambda>s. site_expr s = Literal (StringValue v) \<longrightarrow> site_stable s = Some ?m) sites"
    if h: "parse c = Inr nodes" "c = originalText sites rest"
      "mset nodes = mset (siteNodes 0 sites) + mset others"
      "list_all (\<lambda>s. foundIn ?p2 s \<or> keptIn ?p2 s) sites"
      "list_all (unresolved ?p2) others"
  proof -
    have "rewriteCode parse ?p2 c = Inr (rewrittenText sites rest, rev (betweenQuotes 0 sites))"
      by (rule rewriteCode_layout [of parse c nodes sites rest others ?p2, OF h])
    moreover from h(4) site
    have "list_all (\<lambda>s. site_expr s = Literal (StringValue v) \<longrightarrow> site_stable s = Some ?m) sites"
      unfolding list_all_iff by blast
    ultimately show ?thesis by blast
  qed
  have other: "literalSpecifier node' = Some v' \<and> \<not> isCandidate p v' \<longrightarrow> visit ?p2 node' = None"
    using visit_nonCandidate [of ?p2 node']
    by (auto simp: nonCandidate_def isCandidate_afterSecondPass)
  show ?thesis
    apply (intro conjI)
    subgoal by (fact reg)
    subgoal by (fact ne)
    subgoal using vis by blast
    subgoal using layout by blast
    subgoal by (fact other)
    done
qed

theorem internal_references_rewritten_witness:
  "visit (afterSecondPass (importMapPlugin None) app_v1) (import_node ''./button-abc123.js'')
     = Some \<lparr> op_start = 15, op_end = 33, replacement = ''button'' \<rparr>
   \<and> chunkMapping (afterSecondPass (importMapPlugin None) app_v1) ''button-abc123.js''
     = Some ''button''
   \<and> rewriteCode app_parser (afterSecondPass (importMapPlugin None) app_v1) (code main_v1)
     = Inr (''import x from \"button\"'',
            [\<lparr> op_start = 15, op_end = 33, replacement = ''button'' \<rparr>])"
proof -
  let ?p = "importMapPlugin None"
  let ?p2 = "afterSecondPass ?p app_v1"
  let ?f = "''assets/button-abc123.js''"
  let ?v = "''./button-abc123.js''"
  let ?src = "\<lparr> expr = Literal (StringValue ?v), src_start = 14, src_end = 34 \<rparr>"
  have mem: "(?f, button_v1) \<in> set app_v1" by (simp add: app_v1_def)
  have script: "isScript ?f button_v1" and named: "name button_v1 \<noteq> []" by code_simp+
  have sole: "list_all (\<lambda>e. isScript (fst e) (snd e) \<and> filenameOnlyOf ?f \<in> set (aliasesOf e)
                      \<longrightarrow> e = (?f, button_v1)) app_v1"
    by code_simp
  have cand: "isCandidate ?p ?v" and seg: "lastSegment ?v = filenameOnlyOf ?f" by code_simp+
  have spec: "moduleSpecOf (countBaseNames app_v1 (baseNameCounts ?p)) button_v1 = ''button''"
    and bare: "lastSegment ?v = ''button-abc123.js''"
    by code_simp+
  have node: "source (import_node ?v) = Some ?src \<and> expr ?src = Literal (StringValue ?v)"
    by (simp add: import_node_def)
  have ends: "src_start ?src + 1 = 15" "src_end ?src - 1 = 33" by simp_all
  have parsed: "app_parser (code main_v1) = Inr [import_node ?v]" by code_simp
  have laid: "code main_v1 = originalText [button_site] []" by code_simp
  have nodes: "mset [import_node ?v] = mset (siteNodes 0 [button_site]) + mset []"
    by (simp add: import_node_def button_site_def siteNode_def)
  have found: "list_all (\<lambda>s. foundIn ?p2 s \<or> keptIn ?p2 s) [button_site]" by code_simp
  have others: "list_all (unresolved ?p2) []" by simp
  have out: "rewrittenText [button_site] [] = ''import x from \"button\"''"
    and ops: "rev (betweenQuotes 0 [button_site])
      = [\<lparr> op_start = 15, op_end = 33, replacement = ''button'' \<rparr>]"
    by code_simp+
  note th = internal_references_rewritten [OF mem script named sole cand seg,
      where node = "import_node ?v" and src = ?src and parse = app_parser and c = "code main_v1"
        and nodes = "[import_node ?v]" and sites = "[button_site]" and rest = "[]" and others = "[]"]
  from th node have "visit ?p2 (import_node ?v)
      = Some \<lparr> op_start = src_start ?src + 1, op_end = src_end ?src - 1,
               replacement = moduleSpecOf (countBaseNames app_v1 (baseNameCounts ?p)) button_v1 \<rparr>"
    by blast
  then have v: "visit ?p2 (import_node ?v)
      = Some \<lparr> op_start = 15, op_end = 33, replacement = ''button'' \<rparr>"
    by (simp only: spec ends)
  from th have "chunkMapping ?p2 (lastSegment ?v)
      = Some (moduleSpecOf (countBaseNames app_v1 (baseNameCounts ?p)) button_v1)" by blast
  then have m: "chunkMapping ?p2 ''button-abc123.js'' = Some ''button''"
    by (simp only: spec bare)
  from th parsed laid nodes found others
  have "rewriteCode app_parser ?p2 (code main_v1)
      = Inr (rewrittenText [button_site] [], rev (betweenQuotes 0 [button_site]))" by blast
  then have r: "rewriteCode app_parser ?p2 (code main_v1)
      = Inr (''import x from \"button\"'',
             [\<lparr> op_start = 15, op_end = 33, replacement = ''button'' \<rparr>])"
    by (simp only: out ops)
  show ?thesis
    apply (intro conjI)
    subgoal by (fact v)
    subgoal by (fact m)
    subgoal by (fact r)
    done
qed

end
